theory Spec2Isabelle
  imports Main "HOL-Library.AList" "HOL-Library.List_Lexorder" "HOL-Library.Char_ord"
begin

section \<open>The model cache (model-cache.ts)\<close>

text \<open>
  The cache manager keeps a JavaScript \<open>Map\<close> from model names to cache entries. A
  \<open>Map\<close> iterates in insertion order, \<open>set\<close> on a present key keeps the key's position and
  \<open>delete\<close> removes the key: the index is an association list with
  \<^const>\<open>AList.update\<close>, \<^const>\<open>AList.delete\<close> and \<^const>\<open>map_of\<close>. JavaScript
  numbers that hold byte counts and epoch milliseconds are integers; the sums and
  differences of byte counts that the sweep computes are rounded as doubles are. One
  call runs at a time: no other call of the two managers comes in between at an
  \<open>await\<close>.
\<close>

record ModelCacheEntry =
  path :: string
  lastUsed :: int
  size_bytes :: int
  version :: string

type_synonym index = "(string \<times> ModelCacheEntry) list"

subsection \<open>The world the code runs in\<close>

text \<open>
  A path of the file system holds a regular file, of which the code observes the size
  (\<open>stats.size\<close>) and the SHA-256 digest of its bytes, or a directory.
\<close>

datatype node = File (fsize: int) (fdigest: string) | Dir

fun isFile :: "node \<Rightarrow> bool" where
  "isFile (File sz d) = True"
| "isFile Dir = False"

text \<open>
  \<open>stats.size\<close>. The size of a directory is never used: \<open>cacheModel\<close> reads it and
  then fails to copy the directory.
\<close>

fun stat_size :: "node \<Rightarrow> int" where
  "stat_size (File sz d) = sz"
| "stat_size Dir = 0"

datatype level = Info | Warn | Error

text \<open>
  What \<open>fetch(url)\<close> gives: the promise rejects (network failure, or the abort signal of
  the five-minute timer), or it resolves to a response with its \<open>ok\<close> flag, its status
  text and its body; a body of \<open>None\<close> is a body whose \<open>arrayBuffer()\<close> rejects.
\<close>

datatype fetch_result =
  Rejected
  | Response (ok: bool) (statusText: string) (body: "(int \<times> string) option")

text \<open>
  The environment holds what the code cannot change: the working directory, the hash
  function, the clock (\<open>now env n\<close> is the value of the \<open>n\<close>-th call of \<open>Date.now()\<close>),
  the paths on which \<open>unlink\<close> is refused, the paths that cannot be written or created,
  and the network.
\<close>

record env =
  cwd :: string
  sha256hex :: "string \<Rightarrow> string"
  now :: "nat \<Rightarrow> int"
  undeletable :: "string set"
  unwritable :: "string set"
  fetch :: "string \<Rightarrow> fetch_result"

datatype ModelType = Transcription | Summarization

record ModelConfig =
  name :: string
  type_cfg :: ModelType
  url :: string
  checksum :: string
  localPath :: string
  version_cfg :: string
  requiredDiskSpace :: int

text \<open>
  The state is everything the code reads and writes: the two singletons' fields
  (\<open>cacheIndex\<close>, \<open>modelConfigs\<close>), the files, the parsed content of
  \<open>cache-index.json\<close> (\<open>None\<close>: missing or not parsable), the number of clock readings
  made so far, the URLs fetched so far and the lines given to the logger.
\<close>

record state =
  cacheIndex :: index
  modelConfigs :: "ModelConfig list"
  files :: "string \<rightharpoonup> node"
  indexFile :: "index option"
  ticks :: nat
  fetched :: "string list"
  logged :: "(level \<times> string) list"

definition logger :: "level \<Rightarrow> string \<Rightarrow> state \<Rightarrow> state" where
  "logger lv msg s = s\<lparr>logged := logged s @ [(lv, msg)]\<rparr>"

definition Date_now :: "env \<Rightarrow> state \<Rightarrow> int \<times> state" where
  "Date_now env s = (now env (ticks s), s\<lparr>ticks := Suc (ticks s)\<rparr>)"

text \<open>
  \<open>path.join\<close> and \<open>path.basename\<close>, for paths that need no normalisation (no \<open>.\<close> or
  \<open>..\<close> segment, no doubled or trailing separator).
\<close>

definition path_join :: "string \<Rightarrow> string \<Rightarrow> string" where
  "path_join d f = d @ ''/'' @ f"

definition basename :: "string \<Rightarrow> string" where
  "basename p = rev (takeWhile (\<lambda>c. c \<noteq> CHR ''/'') (rev p))"

subsection \<open>File operations of \<open>fs/promises\<close>\<close>

text \<open>
  Each operation returns \<open>None\<close> where the promise rejects. \<open>stat\<close> and \<open>access\<close> reject
  on a missing path; \<open>unlink\<close> rejects on a missing path, on a directory and on a path
  whose deletion is refused; \<open>writeFile\<close> rejects on a target that cannot be opened for
  writing (it is refused, or it is a directory) and leaves the target as it was.
\<close>

definition fs_stat :: "state \<Rightarrow> string \<Rightarrow> node option" where
  "fs_stat s p = files s p"

definition fs_access :: "state \<Rightarrow> string \<Rightarrow> bool" where
  "fs_access s p = (files s p \<noteq> None)"

definition fs_unlink :: "env \<Rightarrow> string \<Rightarrow> state \<Rightarrow> state option" where
  "fs_unlink env p s =
     (case files s p of
        Some (File sz d) \<Rightarrow>
          if p \<in> undeletable env then None else Some (s\<lparr>files := (files s)(p := None)\<rparr>)
      | Some Dir \<Rightarrow> None
      | None \<Rightarrow> None)"

definition fs_writeFile :: "env \<Rightarrow> string \<Rightarrow> int \<times> string \<Rightarrow> state \<Rightarrow> state option" where
  "fs_writeFile env p dat s =
     (if p \<in> unwritable env \<or> files s p = Some Dir then None
      else Some (s\<lparr>files := (files s)(p \<mapsto> File (fst dat) (snd dat))\<rparr>))"

text \<open>
  \<open>copyFile\<close> returns whether the promise resolved, and the state in both cases. It
  opens the source, then the target, then copies. A missing source, or a target that
  cannot be opened for writing, rejects with the target untouched. A source that is a
  directory can be opened but not read: by then the target has been opened and emptied,
  and the copy that failed removes it again, or leaves it empty where its deletion is
  refused.
\<close>

definition fs_copyFile :: "env \<Rightarrow> string \<Rightarrow> string \<Rightarrow> state \<Rightarrow> bool \<times> state" where
  "fs_copyFile env src dst s =
     (case files s src of
        None \<Rightarrow> (False, s)
      | Some nd \<Rightarrow>
          if dst \<in> unwritable env \<or> files s dst = Some Dir then (False, s)
          else
            (case nd of
               File sz d \<Rightarrow> (True, s\<lparr>files := (files s)(dst \<mapsto> File sz d)\<rparr>)
             | Dir \<Rightarrow>
                 if dst \<in> undeletable env
                 then (False, s\<lparr>files := (files s)(dst \<mapsto> File 0 (sha256hex env []))\<rparr>)
                 else (False, s\<lparr>files := (files s)(dst := None)\<rparr>)))"

definition fs_readFile :: "state \<Rightarrow> string \<Rightarrow> string option" where
  "fs_readFile s p =
     (case files s p of Some (File sz d) \<Rightarrow> Some d | Some Dir \<Rightarrow> None | None \<Rightarrow> None)"

definition fs_mkdir :: "env \<Rightarrow> string \<Rightarrow> state \<Rightarrow> state option" where
  "fs_mkdir env p s =
     (case files s p of
        Some Dir \<Rightarrow> Some s
      | Some (File sz d) \<Rightarrow> None
      | None \<Rightarrow> if p \<in> unwritable env then None else Some (s\<lparr>files := (files s)(p \<mapsto> Dir)\<rparr>))"

subsection \<open>Arithmetic on numbers\<close>

text \<open>
  A JavaScript number is an IEEE 754 double. The sizes and the running total of the
  sweep are integers held in doubles: a sum or a difference is computed exactly and
  then rounded to the nearest double, ties to the even significand. A double holds
  every integer up to 2^53 in magnitude; above, \<open>ulp m\<close> is the spacing of the doubles
  around the magnitude \<open>m\<close>. What rounds to 2^1024 or beyond is \<open>Infinity\<close>, which no
  finite size changes any more.
\<close>

definition MAX_SAFE_INTEGER :: int where
  "MAX_SAFE_INTEGER = 2 ^ 53 - 1"

definition Infinity :: int where
  "Infinity = 2 ^ 1024"

function ulp :: "int \<Rightarrow> int" where
  "ulp m = (if m < 2 ^ 53 then 1 else 2 * ulp (m div 2))"
  by pat_completeness auto
termination
  by (relation "measure nat") auto

declare ulp.simps [simp del]

definition round_magnitude :: "int \<Rightarrow> int" where
  "round_magnitude m =
     (if Infinity \<le> m then Infinity
      else
        let u = ulp m; q = m div u; r = m mod u
        in if 2 * r < u then q * u
           else if u < 2 * r then (q + 1) * u
           else if even q then q * u else (q + 1) * u)"

definition round_double :: "int \<Rightarrow> int" where
  "round_double n = (if n < 0 then - round_magnitude (- n) else round_magnitude n)"

definition number_add :: "int \<Rightarrow> int \<Rightarrow> int" where
  "number_add a b = (if \<bar>a\<bar> = Infinity then a else round_double (a + b))"

definition number_sub :: "int \<Rightarrow> int \<Rightarrow> int" where
  "number_sub a b = (if \<bar>a\<bar> = Infinity then a else round_double (a - b))"

subsection \<open>ModelCacheManager\<close>

definition cacheDir :: "env \<Rightarrow> string" where
  "cacheDir env = path_join (cwd env) ''model-cache''"

definition maxCacheSize :: int where
  "maxCacheSize = 10 * 1024 * 1024 * 1024"

definition maxModelAge :: int where
  "maxModelAge = 30 * 24 * 60 * 60 * 1000"

definition indexPath :: "env \<Rightarrow> string" where
  "indexPath env = path_join (cacheDir env) ''cache-index.json''"

text \<open>\<open>new Map(pairs)\<close> sets the pairs one after the other.\<close>

definition Map_of_pairs :: "index \<Rightarrow> index" where
  "Map_of_pairs ps = foldl (\<lambda>m kv. AList.update (fst kv) (snd kv) m) [] ps"

definition loadCacheIndex :: "env \<Rightarrow> state \<Rightarrow> state" where
  "loadCacheIndex env s =
     (case indexFile s of
        Some ps \<Rightarrow> s\<lparr>cacheIndex := Map_of_pairs ps\<rparr>
      | None \<Rightarrow> s\<lparr>cacheIndex := []\<rparr>)"

definition saveCacheIndex :: "env \<Rightarrow> state \<Rightarrow> state" where
  "saveCacheIndex env s =
     (if indexPath env \<in> unwritable env
      then logger Error ''Failed to save cache index'' s
      else s\<lparr>indexFile := Some (cacheIndex s)\<rparr>)"

text \<open>
  The loop of \<open>manageCacheSize\<close>: \<open>es\<close> is what is left of \<open>sortedEntries\<close>. The
  index deletion and the subtraction stand after \<open>unlink\<close> inside the \<open>try\<close>, so a
  rejected \<open>unlink\<close> skips both and only logs a warning.
\<close>

fun sweep :: "env \<Rightarrow> index \<Rightarrow> int \<Rightarrow> state \<Rightarrow> state" where
  "sweep env [] currentCacheSize s = s"
| "sweep env ((modelName, oldestEntry) # es) currentCacheSize s =
     (if currentCacheSize > maxCacheSize then
        (case fs_unlink env (path oldestEntry) s of
           Some s1 \<Rightarrow>
             sweep env es (number_sub currentCacheSize (size_bytes oldestEntry))
               (s1\<lparr>cacheIndex := AList.delete modelName (cacheIndex s1)\<rparr>)
         | None \<Rightarrow>
             sweep env es currentCacheSize
               (logger Warn ''Failed to remove old cache entry'' s))
      else s)"

text \<open>
  \<open>Array.prototype.sort\<close> is stable, and the comparator \<open>a[1].lastUsed - b[1].lastUsed\<close>
  orders by the timestamp alone: \<^const>\<open>sort_key\<close> is the stable sort on that key.
\<close>

definition sortedEntries :: "index \<Rightarrow> index" where
  "sortedEntries idx = sort_key (\<lambda>a. lastUsed (snd a)) idx"

definition totalSize :: "index \<Rightarrow> int" where
  "totalSize idx = foldl (\<lambda>tot entry. number_add tot (size_bytes (snd entry))) 0 idx"

definition manageCacheSize :: "env \<Rightarrow> state \<Rightarrow> state" where
  "manageCacheSize env s =
     saveCacheIndex env
       (sweep env (sortedEntries (cacheIndex s)) (totalSize (sortedEntries (cacheIndex s))) s)"

definition cachedPathOf :: "env \<Rightarrow> string \<Rightarrow> string \<Rightarrow> string \<Rightarrow> string" where
  "cachedPathOf env modelName modelPath ver =
     path_join (cacheDir env)
       (sha256hex env (modelName @ ''-'' @ ver) @ ''-'' @ basename modelPath)"

definition cacheModel :: "env \<Rightarrow> string \<Rightarrow> string \<Rightarrow> string \<Rightarrow> state \<Rightarrow> (string + string) \<times> state" where
  "cacheModel env modelName modelPath ver s =
     (case fs_stat s modelPath of
        None \<Rightarrow> (Inl ''Model caching failed'', logger Error ''Model caching failed'' s)
      | Some stats \<Rightarrow>
          let cachedModelPath = cachedPathOf env modelName modelPath ver in
          (case fs_copyFile env modelPath cachedModelPath s of
             (False, s1) \<Rightarrow>
               (Inl ''Model caching failed'', logger Error ''Model caching failed'' s1)
           | (True, s1) \<Rightarrow>
               let (t, s2) = Date_now env s1;
                   cacheEntry = \<lparr>path = cachedModelPath, lastUsed = t,
                                 size_bytes = stat_size stats, version = ver\<rparr>;
                   s3 = s2\<lparr>cacheIndex := AList.update modelName cacheEntry (cacheIndex s2)\<rparr>;
                   s4 = saveCacheIndex env s3;
                   s5 = manageCacheSize env s4
               in (Inr cachedModelPath, s5)))"

definition getModelFromCache :: "env \<Rightarrow> string \<Rightarrow> state \<Rightarrow> string option \<times> state" where
  "getModelFromCache env modelName s =
     (case map_of (cacheIndex s) modelName of
        None \<Rightarrow> (None, s)
      | Some cacheEntry \<Rightarrow>
          (case fs_stat s (path cacheEntry) of
             None \<Rightarrow>
               (None, saveCacheIndex env
                        (s\<lparr>cacheIndex := AList.delete modelName (cacheIndex s)\<rparr>))
           | Some stats \<Rightarrow>
               let (t, s1) = Date_now env s;
                   isRecent = (t - lastUsed cacheEntry < maxModelAge)
               in if isFile stats \<and> isRecent then
                    let (t2, s2) = Date_now env s1;
                        s3 = s2\<lparr>cacheIndex :=
                               AList.update modelName (cacheEntry\<lparr>lastUsed := t2\<rparr>) (cacheIndex s2)\<rparr>
                    in (Some (path cacheEntry), saveCacheIndex env s3)
                  else (None, s1)))"

section \<open>The model catalog and the acquisition (ml-config.ts)\<close>

definition modelsDir :: "env \<Rightarrow> string" where
  "modelsDir env = path_join (cwd env) ''models''"

text \<open>
  A thrown \<open>Error\<close> is \<open>Inl\<close> of its message. A function that can throw after it has
  changed something returns the state in both cases.
\<close>

definition initializeCacheDirectory :: "env \<Rightarrow> state \<Rightarrow> (string + unit) \<times> state" where
  "initializeCacheDirectory env s =
     (case fs_mkdir env (cacheDir env) s of
        None \<Rightarrow>
          (Inl ''Model cache initialization failed'',
           logger Error ''Failed to initialize model cache'' s)
      | Some s1 \<Rightarrow> (Inr (), loadCacheIndex env s1))"

definition initializeModelDirectory :: "env \<Rightarrow> state \<Rightarrow> (string + unit) \<times> state" where
  "initializeModelDirectory env s =
     (case fs_mkdir env (modelsDir env) s of
        None \<Rightarrow>
          (Inl ''Model directory initialization failed'',
           logger Error ''Failed to create models directory'' s)
      | Some s1 \<Rightarrow>
          (case initializeCacheDirectory env s1 of
             (Inl e, s2) \<Rightarrow>
               (Inl ''Model directory initialization failed'',
                logger Error ''Failed to create models directory'' s2)
           | (Inr u, s2) \<Rightarrow> (Inr (), s2)))"

text \<open>
  \<open>getDiskSpace\<close> answers a constant, a total and an available byte count. It never
  throws, so the \<open>catch\<close> of \<open>checkDiskSpace\<close> never runs.
\<close>

definition placeholderDiskSpace :: "int \<times> int" where
  "placeholderDiskSpace = (1000 * 1024 * 1024 * 1024, 500 * 1024 * 1024 * 1024)"

definition getDiskSpace :: "env \<Rightarrow> int \<times> int" where
  "getDiskSpace env = placeholderDiskSpace"

definition checkDiskSpace :: "env \<Rightarrow> int \<Rightarrow> bool" where
  "checkDiskSpace env requiredSpace =
     (case getDiskSpace env of (total_bytes, available) \<Rightarrow> available > requiredSpace)"

definition catalog :: "env \<Rightarrow> ModelConfig list" where
  "catalog env =
     [\<lparr>name = ''whisper-small'', type_cfg = Transcription,
       url = ''https://huggingface.co/ggerganov/whisper.cpp/resolve/main/ggml-small.bin'',
       checksum = [],
       localPath = path_join (modelsDir env) ''whisper-small.bin'',
       version_cfg = ''1.0.0'',
       requiredDiskSpace = 500 * 1024 * 1024\<rparr>,
      \<lparr>name = ''distilbart-summarization'', type_cfg = Summarization,
       url = ''https://huggingface.co/facebook/bart-large-cnn/resolve/main/pytorch_model.bin'',
       checksum = [],
       localPath = path_join (modelsDir env) ''summarization-model.bin'',
       version_cfg = ''1.0.0'',
       requiredDiskSpace = 1024 * 1024 * 1024\<rparr>]"

definition getModelConfigs :: "env \<Rightarrow> state \<Rightarrow> (string + ModelConfig list) \<times> state" where
  "getModelConfigs env s =
     (if length (modelConfigs s) > 0 then (Inr (modelConfigs s), s)
      else
        (case initializeModelDirectory env s of
           (Inl e, s1) \<Rightarrow> (Inl e, s1)
         | (Inr u, s1) \<Rightarrow> (Inr (catalog env), s1\<lparr>modelConfigs := catalog env\<rparr>)))"

definition verifyModelChecksum :: "string \<Rightarrow> string \<Rightarrow> state \<Rightarrow> bool \<times> state" where
  "verifyModelChecksum filePath expectedChecksum s =
     (case fs_readFile s filePath of
        None \<Rightarrow> (False, logger Error ''Checksum verification failed'' s)
      | Some calculatedChecksum \<Rightarrow> (calculatedChecksum = expectedChecksum, s))"

text \<open>
  \<open>if (cachedModelPath)\<close> tests a \<open>string | null\<close> for truthiness: \<open>null\<close> and the
  empty string are falsy.
\<close>

fun truthy :: "string option \<Rightarrow> bool" where
  "truthy None = False"
| "truthy (Some p) = (p \<noteq> [])"

definition downloadModel :: "env \<Rightarrow> ModelConfig \<Rightarrow> state \<Rightarrow> string option \<times> state" where
  "downloadModel env config s =
     (if \<not> checkDiskSpace env (requiredDiskSpace config) then
        (None, logger Error ''Insufficient disk space for model download'' s)
      else
        (case getModelFromCache env (name config) s of
           (cachedModelPath, s1) \<Rightarrow>
             if truthy cachedModelPath then (cachedModelPath, s1)
             else
               let s2 = logger Info ''Downloading model'' s1;
                   s3 = s2\<lparr>fetched := fetched s2 @ [url config]\<rparr>
               in (case fetch env (url config) of
                     Rejected \<Rightarrow> (None, logger Error ''Model download failed'' s3)
                   | Response response_ok status modelData \<Rightarrow>
                       if \<not> response_ok then (None, logger Error ''Model download failed'' s3)
                       else
                         (case modelData of
                            None \<Rightarrow> (None, logger Error ''Model download failed'' s3)
                          | Some dat \<Rightarrow>
                              (case fs_writeFile env (localPath config) dat s3 of
                                 None \<Rightarrow> (None, logger Error ''Model download failed'' s3)
                               | Some s4 \<Rightarrow>
                                   (case cacheModel env (name config) (localPath config)
                                           (version_cfg config) s4 of
                                      (Inl e, s5) \<Rightarrow>
                                        (None, logger Error ''Model download failed'' s5)
                                    | (Inr p, s5) \<Rightarrow> (Some p, s5)))))))"

text \<open>
  \<open>ensureModelAvailable\<close> assigns to \<open>modelConfig.localPath\<close>, and \<open>modelConfig\<close> is
  the first element of \<open>this.modelConfigs\<close> of the requested type: the assignment
  changes the catalog held in the state.
\<close>

fun set_localPath :: "ModelType \<Rightarrow> string \<Rightarrow> ModelConfig list \<Rightarrow> ModelConfig list" where
  "set_localPath t p [] = []"
| "set_localPath t p (c # cs) =
     (if type_cfg c = t then c\<lparr>localPath := p\<rparr> # cs else c # set_localPath t p cs)"

text \<open>
  The \<open>catch\<close> of the inner \<open>try\<close> of \<open>ensureModelAvailable\<close>: it runs when
  \<open>fs.access\<close> rejects and when \<open>cacheModel\<close> throws.
\<close>

definition attemptDownload ::
  "env \<Rightarrow> ModelType \<Rightarrow> ModelConfig \<Rightarrow> state \<Rightarrow> ModelConfig option \<times> state" where
  "attemptDownload env modelType modelConfig s =
     (case downloadModel env modelConfig s of
        (downloadedModelPath, s1) \<Rightarrow>
          if truthy downloadedModelPath then
            (Some (modelConfig\<lparr>localPath := the downloadedModelPath\<rparr>),
             s1\<lparr>modelConfigs :=
                  set_localPath modelType (the downloadedModelPath) (modelConfigs s1)\<rparr>)
          else (None, s1))"

definition cacheExisting ::
  "env \<Rightarrow> ModelType \<Rightarrow> ModelConfig \<Rightarrow> state \<Rightarrow> ModelConfig option \<times> state" where
  "cacheExisting env modelType modelConfig s =
     (case cacheModel env (name modelConfig) (localPath modelConfig) (version_cfg modelConfig) s of
        (Inl e, s1) \<Rightarrow> attemptDownload env modelType modelConfig s1
      | (Inr p, s1) \<Rightarrow> (if truthy (Some p) then Some modelConfig else None, s1))"

definition ensureModelAvailable ::
  "env \<Rightarrow> ModelType \<Rightarrow> state \<Rightarrow> ModelConfig option \<times> state" where
  "ensureModelAvailable env modelType s =
     (case getModelConfigs env s of
        (Inl e, s1) \<Rightarrow> (None, logger Error ''Model availability check failed'' s1)
      | (Inr configs, s1) \<Rightarrow>
          (case find (\<lambda>config. type_cfg config = modelType) configs of
             None \<Rightarrow> (None, logger Warn ''No model configuration found'' s1)
           | Some modelConfig \<Rightarrow>
               (case getModelFromCache env (name modelConfig) s1 of
                  (cachedModelPath, s2) \<Rightarrow>
                    if truthy cachedModelPath then
                      (Some (modelConfig\<lparr>localPath := the cachedModelPath\<rparr>),
                       s2\<lparr>modelConfigs :=
                            set_localPath modelType (the cachedModelPath) (modelConfigs s2)\<rparr>)
                    else if fs_access s2 (localPath modelConfig) then
                      (if checksum modelConfig \<noteq> [] then
                         (case verifyModelChecksum (localPath modelConfig)
                                 (checksum modelConfig) s2 of
                            (checksumValid, s3) \<Rightarrow>
                              if \<not> checksumValid then
                                (None, logger Warn ''Model checksum invalid, re-downloading'' s3)
                              else cacheExisting env modelType modelConfig s3)
                       else cacheExisting env modelType modelConfig s2)
                    else attemptDownload env modelType modelConfig s2)))"

section \<open>Definitions used to state the properties\<close>

text \<open>
  \<open>can_unlink env fs p\<close>: \<open>fs.unlink(p)\<close> resolves in the file system \<open>fs\<close>.
\<close>

definition can_unlink :: "env \<Rightarrow> (string \<rightharpoonup> node) \<Rightarrow> string \<Rightarrow> bool" where
  "can_unlink env fs p =
     (case fs p of
        Some (File sz d) \<Rightarrow> p \<notin> undeletable env
      | Some Dir \<Rightarrow> False
      | None \<Rightarrow> False)"

text \<open>\<open>exactSize idx\<close>: the bytes that the entries of \<open>idx\<close> stand for, added exactly.\<close>

definition exactSize :: "index \<Rightarrow> int" where
  "exactSize idx = sum_list (map (\<lambda>a. size_bytes (snd a)) idx)"

text \<open>
  The eviction policy in the words of the specification: over the entries ordered by
  \<open>lastUsedTimestamp\<close>, oldest first, ``while total exceeds the ceiling and at least one
  entry remains, evict the oldest entry and subtract its size from the running total''.
  \<open>lru_count\<close> is the number of entries evicted and \<open>lru_evicted\<close> are the entries; the
  total is added up and reduced as the code does it, in numbers.
\<close>

fun lru_count :: "int \<Rightarrow> index \<Rightarrow> nat" where
  "lru_count T [] = 0"
| "lru_count T (x # xs) =
     (if T > maxCacheSize then Suc (lru_count (number_sub T (size_bytes (snd x))) xs) else 0)"

definition lru_evicted :: "index \<Rightarrow> index" where
  "lru_evicted idx =
     take (lru_count (totalSize (sortedEntries idx)) (sortedEntries idx)) (sortedEntries idx)"

text \<open>
  The descriptors that \<open>this.modelConfigs\<close> can hold: those of the catalog, with a
  \<open>localPath\<close> that \<open>ensureModelAvailable\<close> may have reassigned.
\<close>

definition catalog_descriptor :: "env \<Rightarrow> ModelConfig \<Rightarrow> bool" where
  "catalog_descriptor env cfg =
     list_ex (\<lambda>c. cfg = c\<lparr>localPath := localPath cfg\<rparr>) (catalog env)"

subsection \<open>Concrete environments and states\<close>

definition GiB :: int where
  "GiB = 1024 * 1024 * 1024"

text \<open>
  In \<open>env0\<close> every file can be deleted and written and the network is down. The hash
  function of the examples is the identity, which is enough to tell cached paths apart.
\<close>

definition env0 :: env where
  "env0 = \<lparr>cwd = ''/app'', sha256hex = (\<lambda>w. w), now = (\<lambda>n. 1000 + int n),
           undeletable = {}, unwritable = {}, fetch = (\<lambda>u. Rejected)\<rparr>"

definition mk_entry :: "string \<Rightarrow> int \<Rightarrow> int \<Rightarrow> ModelCacheEntry" where
  "mk_entry p t sz = \<lparr>path = p, lastUsed = t, size_bytes = sz, version = ''1''\<rparr>"

definition mk_state :: "index \<Rightarrow> (string \<rightharpoonup> node) \<Rightarrow> state" where
  "mk_state idx fs = \<lparr>cacheIndex = idx, modelConfigs = [], files = fs, indexFile = None,
                      ticks = 0, fetched = [], logged = []\<rparr>"

text \<open>Three cached models of 5 GiB each, and a fourth model file not yet cached.\<close>

definition s_three :: state where
  "s_three = mk_state
     [(''a'', mk_entry ''/c/a'' 30 (5 * GiB)), (''b'', mk_entry ''/c/b'' 10 (5 * GiB)),
      (''c'', mk_entry ''/c/c'' 20 (5 * GiB))]
     [''/c/a'' \<mapsto> File (5 * GiB) ''da'', ''/c/b'' \<mapsto> File (5 * GiB) ''db'',
      ''/c/c'' \<mapsto> File (5 * GiB) ''dc'', ''/m/d.bin'' \<mapsto> File (5 * GiB) ''dd'']"

text \<open>The same, after the cached file of the oldest entry \<open>b\<close> was deleted by someone else.\<close>

definition s_three_gone :: state where
  "s_three_gone = mk_state
     [(''a'', mk_entry ''/c/a'' 30 (5 * GiB)), (''b'', mk_entry ''/c/b'' 10 (5 * GiB)),
      (''c'', mk_entry ''/c/c'' 20 (5 * GiB))]
     [''/c/a'' \<mapsto> File (5 * GiB) ''da'', ''/c/c'' \<mapsto> File (5 * GiB) ''dc'',
      ''/m/d.bin'' \<mapsto> File (5 * GiB) ''dd'']"

text \<open>Four cached models of 5 GiB each: a state as an insertion leaves it.\<close>

definition s_four :: state where
  "s_four = mk_state
     [(''a'', mk_entry ''/c/a'' 30 (5 * GiB)), (''b'', mk_entry ''/c/b'' 10 (5 * GiB)),
      (''c'', mk_entry ''/c/c'' 20 (5 * GiB)), (''d'', mk_entry ''/c/d'' 40 (5 * GiB))]
     [''/c/a'' \<mapsto> File (5 * GiB) ''da'', ''/c/b'' \<mapsto> File (5 * GiB) ''db'',
      ''/c/c'' \<mapsto> File (5 * GiB) ''dc'', ''/c/d'' \<mapsto> File (5 * GiB) ''dd'']"

text \<open>Two cached models, 10 GiB in all: at the ceiling, not over it.\<close>

definition s_two :: state where
  "s_two = mk_state
     [(''a'', mk_entry ''/c/a'' 30 (5 * GiB)), (''b'', mk_entry ''/c/b'' 10 (5 * GiB))]
     [''/c/a'' \<mapsto> File (5 * GiB) ''da'', ''/c/b'' \<mapsto> File (5 * GiB) ''db'']"

text \<open>
  Two cached models of 6 GiB each, and an environment that refuses to delete the file of
  the older one.
\<close>

definition env_locked :: env where
  "env_locked = env0\<lparr>undeletable := {''/c/old''}\<rparr>"

definition s_locked :: state where
  "s_locked = mk_state
     [(''old'', mk_entry ''/c/old'' 1 (6 * GiB)), (''new'', mk_entry ''/c/new'' 2 (6 * GiB))]
     [''/c/old'' \<mapsto> File (6 * GiB) ''do'', ''/c/new'' \<mapsto> File (6 * GiB) ''dn'']"

text \<open>
  One cached model of 1 GiB, last used at time 0, and a clock that stands more than
  thirty days later; and the same index without the cached file.
\<close>

definition env_late :: env where
  "env_late = env0\<lparr>now := (\<lambda>n. maxModelAge + 1 + int n)\<rparr>"

definition s_one :: state where
  "s_one = mk_state [(''m'', mk_entry ''/c/m'' 0 GiB)] [''/c/m'' \<mapsto> File GiB ''dm'']"


text \<open>Two cached models with one timestamp, \<open>zeta\<close> inserted before \<open>alpha\<close>.\<close>

definition s_tie :: state where
  "s_tie = mk_state
     [(''zeta'', mk_entry ''/c/zeta'' 5 (6 * GiB)), (''alpha'', mk_entry ''/c/alpha'' 5 (6 * GiB))]
     [''/c/zeta'' \<mapsto> File (6 * GiB) ''dz'', ''/c/alpha'' \<mapsto> File (6 * GiB) ''da'']"

text \<open>One cached model of 1 GiB and a model file of 11 GiB not yet cached.\<close>

definition s_huge :: state where
  "s_huge = mk_state
     [(''a'', mk_entry ''/c/a'' 30 GiB)]
     [''/c/a'' \<mapsto> File GiB ''da'', ''/m/huge.bin'' \<mapsto> File (11 * GiB) ''dh'']"

text \<open>
  A fresh process: nothing cached, no file, the catalog not yet built. \<open>cfg_big\<close> asks
  for exactly the 500 GiB that \<open>getDiskSpace\<close> reports as available, and \<open>s_big\<close> holds
  it as its only descriptor.
\<close>

definition s_empty :: state where
  "s_empty = mk_state [] Map.empty"

definition cfg_big :: ModelConfig where
  "cfg_big = \<lparr>name = ''big'', type_cfg = Transcription, url = ''https://example.org/big.bin'',
              checksum = [], localPath = ''/app/models/big.bin'', version_cfg = ''1'',
              requiredDiskSpace = 500 * GiB\<rparr>"

definition s_big :: state where
  "s_big = (mk_state [] Map.empty)\<lparr>modelConfigs := [cfg_big]\<rparr>"

text \<open>
  A process that starts with a persisted index: \<open>whisper-small\<close> was cached and last used
  at time 0, its cached file is there and the model file is not. The clock of
  \<open>env_back\<close> reads thirty days, then one millisecond less.
\<close>

definition s_stale :: state where
  "s_stale = (mk_state [] [''/c/w'' \<mapsto> File GiB ''dw''])
               \<lparr>indexFile := Some [(''whisper-small'', mk_entry ''/c/w'' 0 GiB)]\<rparr>"

definition env_back :: env where
  "env_back = env0\<lparr>now := (\<lambda>n. if n = 0 then maxModelAge else maxModelAge - 1)\<rparr>"

text \<open>
  Three cached models of 2^53 bytes, 10 GiB and 1 byte, oldest first: the double nearest
  to their sum is 1 byte short of it.
\<close>

definition s_round :: state where
  "s_round = mk_state
     [(''p'', mk_entry ''/c/p'' 1 (2 ^ 53)), (''q'', mk_entry ''/c/q'' 2 (10 * GiB)),
      (''r'', mk_entry ''/c/r'' 3 1)]
     [''/c/p'' \<mapsto> File (2 ^ 53) ''dp'', ''/c/q'' \<mapsto> File (10 * GiB) ''dq'',
      ''/c/r'' \<mapsto> File 1 ''dr'']"

text \<open>
  The first two of them, as a fresh process loads them from the index file, and a
  model file of 1 byte not yet cached.
\<close>

definition s_round_insert :: state where
  "s_round_insert = mk_state
     [(''p'', mk_entry ''/c/p'' 1 (2 ^ 53)), (''q'', mk_entry ''/c/q'' 2 (10 * GiB))]
     [''/c/p'' \<mapsto> File (2 ^ 53) ''dp'', ''/c/q'' \<mapsto> File (10 * GiB) ''dq'',
      ''/m/r.bin'' \<mapsto> File 1 ''dr'']"

text \<open>
  The model \<open>huge-1\<close> in version \<open>0\<close> is cached. Model \<open>huge\<close> in version \<open>1-0\<close> hashes the
  same string \<open>huge-1-0\<close>, so that its cached path is the same for the same model file.
\<close>

definition s_shared :: state where
  "s_shared = mk_state
     [(''huge-1'', mk_entry ''/app/model-cache/huge-1-0-huge.bin'' 0 (11 * GiB))]
     [''/app/model-cache/huge-1-0-huge.bin'' \<mapsto> File (11 * GiB) ''dh'',
      ''/m/huge.bin'' \<mapsto> File (11 * GiB) ''dh'']"

text \<open>
  One cached model of 2^53 bytes and a model file of 10 GiB + 1 bytes not yet cached.
\<close>

definition s_huge_round :: state where
  "s_huge_round = mk_state
     [(''p'', mk_entry ''/c/p'' 1 (2 ^ 53))]
     [''/c/p'' \<mapsto> File (2 ^ 53) ''dp'', ''/m/huge.bin'' \<mapsto> File (10 * GiB + 1) ''dh'']"



text \<open>
  A descriptor with a declared checksum, and a state whose local model file has another
  digest.
\<close>

definition cfg_sum :: ModelConfig where
  "cfg_sum = \<lparr>name = ''m'', type_cfg = Summarization, url = ''https://example.org/m.bin'',
              checksum = ''expected'', localPath = ''/app/models/m.bin'', version_cfg = ''1'',
              requiredDiskSpace = GiB\<rparr>"

definition s_cfg :: state where
  "s_cfg = (mk_state [] [''/app/models/m.bin'' \<mapsto> File GiB ''actual''])
             \<lparr>modelConfigs := [cfg_sum]\<rparr>"

text \<open>A server that answers 404, and a models directory that cannot be written.\<close>

definition env_404 :: env where
  "env_404 = env0\<lparr>fetch := (\<lambda>u. Response False ''Not Found'' None)\<rparr>"

definition env_readonly :: env where
  "env_readonly = env0\<lparr>fetch := (\<lambda>u. Response True ''OK'' (Some (GiB, ''dm''))),
                       unwritable := {''/app/models/m.bin''}\<rparr>"

lemmas example_defs = GiB_def env0_def mk_entry_def mk_state_def

lemmas number_defs = number_add_def number_sub_def round_double_def round_magnitude_def
  Infinity_def ulp.simps

lemmas cache_defs = cacheModel_def getModelFromCache_def manageCacheSize_def sortedEntries_def
  totalSize_def saveCacheIndex_def indexPath_def cacheDir_def path_join_def basename_def
  cachedPathOf_def Date_now_def logger_def maxCacheSize_def maxModelAge_def
  fs_stat_def fs_access_def fs_unlink_def fs_writeFile_def fs_copyFile_def fs_readFile_def
  fs_mkdir_def Let_def number_defs

lemmas config_defs = ensureModelAvailable_def attemptDownload_def cacheExisting_def
  downloadModel_def verifyModelChecksum_def getModelConfigs_def catalog_def checkDiskSpace_def
  getDiskSpace_def placeholderDiskSpace_def initializeModelDirectory_def
  initializeCacheDirectory_def loadCacheIndex_def Map_of_pairs_def modelsDir_def

section \<open>Auxiliary facts\<close>

subsection \<open>Deleting files and summing sizes\<close>

lemma fs_unlink_None_iff: "fs_unlink env p s = None \<longleftrightarrow> \<not> can_unlink env (files s) p"
  by (simp add: fs_unlink_def can_unlink_def split: option.splits node.splits)

lemma fs_unlink_SomeD:
  "fs_unlink env p s = Some s1 \<Longrightarrow> s1 = s\<lparr>files := (files s)(p := None)\<rparr> \<and> can_unlink env (files s) p"
  by (auto simp: fs_unlink_def can_unlink_def split: option.splits node.splits if_splits)

lemma can_unlink_remove:
  "can_unlink env (fs(q := None)) p \<Longrightarrow> can_unlink env fs p"
  by (auto simp: can_unlink_def split: option.splits node.splits if_splits)

lemma ulp_small: "m < 2 ^ 53 \<Longrightarrow> ulp m = 1"
  by (simp add: ulp.simps)

lemma round_double_exact: "\<bar>n\<bar> \<le> MAX_SAFE_INTEGER \<Longrightarrow> round_double n = n"
  by (auto simp: round_double_def round_magnitude_def MAX_SAFE_INTEGER_def Infinity_def
      ulp_small Let_def)

lemma number_add_exact:
  "\<bar>a\<bar> \<le> MAX_SAFE_INTEGER \<Longrightarrow> \<bar>a + b\<bar> \<le> MAX_SAFE_INTEGER \<Longrightarrow> number_add a b = a + b"
  by (auto simp: number_add_def round_double_exact MAX_SAFE_INTEGER_def Infinity_def)

lemma number_sub_exact:
  "\<bar>a\<bar> \<le> MAX_SAFE_INTEGER \<Longrightarrow> \<bar>a - b\<bar> \<le> MAX_SAFE_INTEGER \<Longrightarrow> number_sub a b = a - b"
  by (auto simp: number_sub_def round_double_exact MAX_SAFE_INTEGER_def Infinity_def)

lemma exactSize_simps [simp]:
  "exactSize [] = 0"
  "exactSize (a # idx) = size_bytes (snd a) + exactSize idx"
  "exactSize (xs @ ys) = exactSize xs + exactSize ys"
  by (simp_all add: exactSize_def)

lemma exactSize_nonneg: "\<forall>x\<in>set idx. 0 \<le> size_bytes (snd x) \<Longrightarrow> 0 \<le> exactSize idx"
  unfolding exactSize_def by (intro sum_list_nonneg) auto

lemma foldl_number_add:
  "0 \<le> a \<Longrightarrow> \<forall>x\<in>set xs. 0 \<le> size_bytes (snd x) \<Longrightarrow> a + exactSize xs \<le> MAX_SAFE_INTEGER \<Longrightarrow>
   foldl (\<lambda>tot entry. number_add tot (size_bytes (snd entry))) a xs = a + exactSize xs"
proof (induction xs arbitrary: a)
  case Nil
  then show ?case by simp
next
  case (Cons x xs)
  have nn: "0 \<le> exactSize xs" using Cons.prems(2) by (intro exactSize_nonneg) simp
  have nx: "0 \<le> size_bytes (snd x)" using Cons.prems(2) by simp
  have "number_add a (size_bytes (snd x)) = a + size_bytes (snd x)"
    using Cons.prems(1,3) nn nx by (intro number_add_exact) simp_all
  moreover have "foldl (\<lambda>tot entry. number_add tot (size_bytes (snd entry)))
       (a + size_bytes (snd x)) xs = a + size_bytes (snd x) + exactSize xs"
    using Cons.prems nx by (intro Cons.IH) simp_all
  ultimately show ?case by simp
qed

text \<open>The total that the code adds up is the exact one as long as that fits a double.\<close>

lemma totalSize_exact:
  "\<forall>x\<in>set idx. 0 \<le> size_bytes (snd x) \<Longrightarrow> exactSize idx \<le> MAX_SAFE_INTEGER \<Longrightarrow>
   totalSize idx = exactSize idx"
  using foldl_number_add [of 0 idx] by (simp add: totalSize_def)

lemma sum_list_insort_key:
  "sum_list (map f (insort_key k x xs)) = f x + sum_list (map f xs)"
  for f :: "'a \<Rightarrow> int"
  by (induction xs) simp_all

lemma sum_list_sort_key:
  "sum_list (map f (sort_key k xs)) = sum_list (map f xs)"
  for f :: "'a \<Rightarrow> int"
  by (induction xs) (simp_all add: sum_list_insort_key)

lemma exactSize_sortedEntries: "exactSize (sortedEntries idx) = exactSize idx"
  by (simp add: exactSize_def sortedEntries_def sum_list_sort_key)

lemma exactSize_delete:
  "distinct (map fst idx) \<Longrightarrow> (k, e) \<in> set idx \<Longrightarrow>
   exactSize (AList.delete k idx) = exactSize idx - size_bytes e"
proof (induction idx)
  case Nil
  then show ?case by simp
next
  case (Cons a idx)
  show ?case
  proof (cases "fst a = k")
    case True
    with Cons.prems have "k \<notin> fst ` set idx" by auto
    then have "AList.delete k idx = idx" by simp
    moreover from True Cons.prems have "a = (k, e)"
      by (auto simp: image_iff)
    ultimately show ?thesis using True by simp
  next
    case False
    with Cons show ?thesis by auto
  qed
qed

lemma exactSize_filter_le:
  "\<forall>x\<in>set idx. 0 \<le> size_bytes (snd x) \<Longrightarrow> exactSize (filter P idx) \<le> exactSize idx"
  by (induction idx) auto

lemma exactSize_ge_member:
  "\<forall>x\<in>set idx. 0 \<le> size_bytes (snd x) \<Longrightarrow> x \<in> set idx \<Longrightarrow> size_bytes (snd x) \<le> exactSize idx"
proof (induction idx)
  case Nil
  then show ?case by simp
next
  case (Cons a idx)
  have nn: "0 \<le> exactSize idx"
    using Cons.prems(1) by (intro exactSize_nonneg) simp
  show ?case
  proof (cases "x = a")
    case True
    with nn show ?thesis by simp
  next
    case False
    with Cons have "size_bytes (snd x) \<le> exactSize idx" by simp
    moreover from Cons.prems(1) have "0 \<le> size_bytes (snd a)" by simp
    ultimately show ?thesis by simp
  qed
qed

lemma set_delete_distinct:
  "distinct (map fst idx) \<Longrightarrow> (k, e) \<in> set idx \<Longrightarrow> set (AList.delete k idx) = set idx - {(k, e)}"
  by (induction idx) (auto simp: image_iff)

subsection \<open>A second sweep finds nothing to do\<close>

lemma sweep_frame:
  "modelConfigs (sweep env es T s) = modelConfigs s \<and> ticks (sweep env es T s) = ticks s \<and>
   fetched (sweep env es T s) = fetched s \<and> indexFile (sweep env es T s) = indexFile s"
proof (induction es arbitrary: T s)
  case Nil
  then show ?case by simp
next
  case (Cons a es)
  obtain k e where a: "a = (k, e)" by (cases a)
  show ?case
    using Cons.IH
    by (auto simp: a logger_def split: option.splits dest!: fs_unlink_SomeD)
qed

lemma sweep_within: "T \<le> maxCacheSize \<Longrightarrow> sweep env es T s = s"
  by (cases es) auto

lemma sweep_stuck:
  "\<forall>x\<in>set es. \<not> can_unlink env (files s) (path (snd x)) \<Longrightarrow>
   cacheIndex (sweep env es T s) = cacheIndex s \<and> files (sweep env es T s) = files s"
proof (induction es arbitrary: s)
  case Nil
  then show ?case by simp
next
  case (Cons a es)
  obtain k e where a: "a = (k, e)" by (cases a)
  from Cons.prems have "fs_unlink env (path e) s = None"
    by (simp add: a fs_unlink_None_iff)
  moreover have "cacheIndex (sweep env es T (logger Warn ''Failed to remove old cache entry'' s))
      = cacheIndex (logger Warn ''Failed to remove old cache entry'' s) \<and>
     files (sweep env es T (logger Warn ''Failed to remove old cache entry'' s))
      = files (logger Warn ''Failed to remove old cache entry'' s)"
    using Cons.prems by (intro Cons.IH) (simp add: logger_def)
  ultimately show ?case
    by (simp add: a logger_def)
qed

text \<open>The sweep only removes entries: what it leaves is a sublist of the index.\<close>

lemma sweep_filter: "\<exists>P. cacheIndex (sweep env es T s) = filter P (cacheIndex s)"
proof (induction es arbitrary: T s)
  case Nil
  show ?case by (rule exI [of _ "\<lambda>x. True"]) simp
next
  case (Cons a es)
  obtain k e where a: "a = (k, e)" by (cases a)
  have triv: "\<exists>P. cacheIndex s = filter P (cacheIndex s)"
    by (rule exI [of _ "\<lambda>x. True"]) simp
  show ?case
  proof (cases "T > maxCacheSize")
    case False
    with triv show ?thesis by (simp add: a)
  next
    case over: True
    show ?thesis
    proof (cases "fs_unlink env (path e) s")
      case None
      from Cons.IH [of T "logger Warn ''Failed to remove old cache entry'' s"]
      show ?thesis using None over by (simp add: a logger_def)
    next
      case (Some s1)
      then have s1: "s1 = s\<lparr>files := (files s)(path e := None)\<rparr>"
        by (auto dest: fs_unlink_SomeD)
      let ?s = "s1\<lparr>cacheIndex := AList.delete k (cacheIndex s1)\<rparr>"
      from Cons.IH [of "number_sub T (size_bytes e)" ?s]
      obtain P where "cacheIndex (sweep env es (number_sub T (size_bytes e)) ?s) =
          filter P (cacheIndex ?s)" by blast
      then have "cacheIndex (sweep env es (number_sub T (size_bytes e)) ?s) =
          filter (\<lambda>x. k \<noteq> fst x \<and> P x) (cacheIndex s)"
        by (simp add: s1 AList.delete_eq case_prod_unfold)
      then show ?thesis using Some over by (auto simp: a)
    qed
  qed
qed

lemma sweep_index_subset: "set (cacheIndex (sweep env es T s)) \<subseteq> set (cacheIndex s)"
proof -
  obtain P where "cacheIndex (sweep env es T s) = filter P (cacheIndex s)"
    using sweep_filter by blast
  then show ?thesis by simp
qed

lemma sweep_exactSize_le:
  "\<forall>x\<in>set (cacheIndex s). 0 \<le> size_bytes (snd x) \<Longrightarrow>
   exactSize (cacheIndex (sweep env es T s)) \<le> exactSize (cacheIndex s)"
proof -
  assume nn: "\<forall>x\<in>set (cacheIndex s). 0 \<le> size_bytes (snd x)"
  obtain P where "cacheIndex (sweep env es T s) = filter P (cacheIndex s)"
    using sweep_filter by blast
  with nn show ?thesis by (simp add: exactSize_filter_le)
qed

text \<open>
  The running total after an exact subtraction: the entry removed is one of the index,
  whose exact total fits a double.
\<close>

lemma number_sub_member:
  assumes "distinct (map fst idx)" and "(k, e) \<in> set idx"
    and "\<forall>x\<in>set idx. 0 \<le> size_bytes (snd x)" and "exactSize idx \<le> MAX_SAFE_INTEGER"
  shows "number_sub (exactSize idx) (size_bytes e) = exactSize (AList.delete k idx)"
    and "exactSize (AList.delete k idx) \<le> MAX_SAFE_INTEGER"
    and "\<forall>x\<in>set (AList.delete k idx). 0 \<le> size_bytes (snd x)"
proof -
  have nn: "0 \<le> exactSize idx" using assms(3) by (rule exactSize_nonneg)
  have le: "size_bytes e \<le> exactSize idx"
    using exactSize_ge_member [OF assms(3,2)] by simp
  have ge: "0 \<le> size_bytes e" using assms(2,3) by auto
  have d: "exactSize (AList.delete k idx) = exactSize idx - size_bytes e"
    using assms(1,2) by (rule exactSize_delete)
  have "number_sub (exactSize idx) (size_bytes e) = exactSize idx - size_bytes e"
    using nn le ge assms(4) by (intro number_sub_exact) simp_all
  then show "number_sub (exactSize idx) (size_bytes e) = exactSize (AList.delete k idx)"
    by (simp add: d)
  show "exactSize (AList.delete k idx) \<le> MAX_SAFE_INTEGER"
    using d ge assms(4) by simp
  show "\<forall>x\<in>set (AList.delete k idx). 0 \<le> size_bytes (snd x)"
    using assms(3) by (auto simp: AList.delete_eq)
qed

lemma sweep_end:
  assumes "distinct (map fst (cacheIndex s))" and "distinct (map fst es)"
    and "set es \<subseteq> set (cacheIndex s)"
    and "\<forall>x\<in>set (cacheIndex s). x \<notin> set es \<longrightarrow> \<not> can_unlink env (files s) (path (snd x))"
    and "T = exactSize (cacheIndex s)"
    and "\<forall>x\<in>set (cacheIndex s). 0 \<le> size_bytes (snd x)"
    and "exactSize (cacheIndex s) \<le> MAX_SAFE_INTEGER"
  shows "exactSize (cacheIndex (sweep env es T s)) \<le> maxCacheSize \<or>
         (\<forall>x\<in>set (cacheIndex (sweep env es T s)).
            \<not> can_unlink env (files (sweep env es T s)) (path (snd x)))"
  using assms
proof (induction es arbitrary: T s)
  case Nil
  then show ?case by simp
next
  case (Cons a es)
  obtain k e where a: "a = (k, e)" by (cases a)
  show ?case
  proof (cases "T > maxCacheSize")
    case False
    with Cons.prems show ?thesis by (simp add: a)
  next
    case over: True
    have mem: "(k, e) \<in> set (cacheIndex s)" using Cons.prems(3) by (simp add: a)
    have knotin: "k \<notin> fst ` set es" using Cons.prems(2) by (simp add: a)
    show ?thesis
    proof (cases "fs_unlink env (path e) s")
      case None
      let ?s = "logger Warn ''Failed to remove old cache entry'' s"
      have st: "\<not> can_unlink env (files s) (path e)"
        using None by (simp add: fs_unlink_None_iff)
      have "exactSize (cacheIndex (sweep env es T ?s)) \<le> maxCacheSize \<or>
         (\<forall>x\<in>set (cacheIndex (sweep env es T ?s)).
            \<not> can_unlink env (files (sweep env es T ?s)) (path (snd x)))"
      proof (rule Cons.IH)
        show "distinct (map fst (cacheIndex ?s))" using Cons.prems(1) by (simp add: logger_def)
        show "distinct (map fst es)" using Cons.prems(2) by simp
        show "set es \<subseteq> set (cacheIndex ?s)" using Cons.prems(3) by (simp add: logger_def)
        show "\<forall>x\<in>set (cacheIndex ?s). x \<notin> set es \<longrightarrow> \<not> can_unlink env (files ?s) (path (snd x))"
          using Cons.prems(4) st by (auto simp: logger_def a)
        show "T = exactSize (cacheIndex ?s)" using Cons.prems(5) by (simp add: logger_def)
        show "\<forall>x\<in>set (cacheIndex ?s). 0 \<le> size_bytes (snd x)"
          using Cons.prems(6) by (simp add: logger_def)
        show "exactSize (cacheIndex ?s) \<le> MAX_SAFE_INTEGER"
          using Cons.prems(7) by (simp add: logger_def)
      qed
      with None over show ?thesis by (simp add: a)
    next
      case (Some s1)
      then have s1: "s1 = s\<lparr>files := (files s)(path e := None)\<rparr>"
        by (auto dest: fs_unlink_SomeD)
      let ?s = "s1\<lparr>cacheIndex := AList.delete k (cacheIndex s1)\<rparr>"
      let ?T = "number_sub T (size_bytes e)"
      have setdel: "set (AList.delete k (cacheIndex s)) = set (cacheIndex s) - {(k, e)}"
        using Cons.prems(1) mem by (rule set_delete_distinct)
      note ns = number_sub_member [OF Cons.prems(1) mem Cons.prems(6,7)]
      have "exactSize (cacheIndex (sweep env es ?T ?s)) \<le> maxCacheSize \<or>
         (\<forall>x\<in>set (cacheIndex (sweep env es ?T ?s)).
            \<not> can_unlink env (files (sweep env es ?T ?s)) (path (snd x)))"
      proof (rule Cons.IH)
        show "distinct (map fst (cacheIndex ?s))"
          using Cons.prems(1) by (simp add: s1 distinct_delete)
        show "distinct (map fst es)" using Cons.prems(2) by simp
        show "set es \<subseteq> set (cacheIndex ?s)"
          using Cons.prems(3) knotin by (force simp: s1 setdel a image_iff)
        show "\<forall>x\<in>set (cacheIndex ?s). x \<notin> set es \<longrightarrow> \<not> can_unlink env (files ?s) (path (snd x))"
          using Cons.prems(4) by (auto simp: s1 setdel a dest: can_unlink_remove)
        show "?T = exactSize (cacheIndex ?s)"
          using ns(1) by (simp add: s1 Cons.prems(5))
        show "\<forall>x\<in>set (cacheIndex ?s). 0 \<le> size_bytes (snd x)"
          using ns(3) by (simp add: s1)
        show "exactSize (cacheIndex ?s) \<le> MAX_SAFE_INTEGER"
          using ns(2) by (simp add: s1)
      qed
      with Some over show ?thesis by (simp add: a)
    qed
  qed
qed

lemma saveCacheIndex_fields [simp]:
  "cacheIndex (saveCacheIndex env s) = cacheIndex s"
  "files (saveCacheIndex env s) = files s"
  "modelConfigs (saveCacheIndex env s) = modelConfigs s"
  "ticks (saveCacheIndex env s) = ticks s"
  "fetched (saveCacheIndex env s) = fetched s"
  by (simp_all add: saveCacheIndex_def logger_def)

lemma indexFile_saveCacheIndex:
  "indexFile (saveCacheIndex env s) =
     (if indexPath env \<in> unwritable env then indexFile s else Some (cacheIndex s))"
  by (simp add: saveCacheIndex_def logger_def)

lemma manageCacheSize_twice:
  assumes "distinct (map fst (cacheIndex s))"
    and "\<forall>x\<in>set (cacheIndex s). 0 \<le> size_bytes (snd x)"
    and "exactSize (cacheIndex s) \<le> MAX_SAFE_INTEGER"
  shows "cacheIndex (manageCacheSize env (manageCacheSize env s)) = cacheIndex (manageCacheSize env s)
     \<and> files (manageCacheSize env (manageCacheSize env s)) = files (manageCacheSize env s)
     \<and> indexFile (manageCacheSize env (manageCacheSize env s)) = indexFile (manageCacheSize env s)"
proof -
  let ?L = "sortedEntries (cacheIndex s)"
  let ?s1 = "sweep env ?L (totalSize ?L) s"
  let ?m1 = "saveCacheIndex env ?s1"
  let ?L2 = "sortedEntries (cacheIndex ?m1)"
  let ?s2 = "sweep env ?L2 (totalSize ?L2) ?m1"
  have m1: "manageCacheSize env s = ?m1" by (simp add: manageCacheSize_def)
  have m2: "manageCacheSize env ?m1 = saveCacheIndex env ?s2" by (simp add: manageCacheSize_def)
  have t1: "totalSize ?L = exactSize (cacheIndex s)"
    using assms(2,3)
    by (subst totalSize_exact)
      (simp_all add: exactSize_sortedEntries [unfolded sortedEntries_def] sortedEntries_def)
  have nn1: "\<forall>x\<in>set (cacheIndex ?s1). 0 \<le> size_bytes (snd x)"
    using assms(2) sweep_index_subset [of env ?L "totalSize ?L" s] by blast
  have le1: "exactSize (cacheIndex ?s1) \<le> MAX_SAFE_INTEGER"
    using sweep_exactSize_le [OF assms(2), of env ?L "totalSize ?L"] assms(3) by simp
  have t2: "totalSize (sortedEntries (cacheIndex ?s1)) = exactSize (cacheIndex ?s1)"
    using nn1 le1
    by (subst totalSize_exact)
      (simp_all add: exactSize_sortedEntries [unfolded sortedEntries_def] sortedEntries_def)
  have "exactSize (cacheIndex ?s1) \<le> maxCacheSize \<or>
         (\<forall>x\<in>set (cacheIndex ?s1). \<not> can_unlink env (files ?s1) (path (snd x)))"
    unfolding t1 using assms
    by (intro sweep_end) (simp_all add: sortedEntries_def distinct_map)
  then have keep: "cacheIndex ?s2 = cacheIndex ?m1 \<and> files ?s2 = files ?m1"
  proof
    assume "exactSize (cacheIndex ?s1) \<le> maxCacheSize"
    then have "?s2 = ?m1"
      by (intro sweep_within) (simp add: t2)
    then show ?thesis by simp
  next
    assume "\<forall>x\<in>set (cacheIndex ?s1). \<not> can_unlink env (files ?s1) (path (snd x))"
    then show ?thesis
      by (intro sweep_stuck) (simp add: sortedEntries_def)
  qed
  have "indexFile ?s2 = indexFile ?m1"
    by (simp add: sweep_frame)
  with keep show ?thesis
    unfolding m1 m2 by (simp add: indexFile_saveCacheIndex)
qed

subsection \<open>The sweep when every file can be deleted\<close>

lemma lru_count_le: "lru_count T es \<le> length es"
  by (induction es arbitrary: T) auto

lemma lru_count_over:
  assumes "\<forall>x\<in>set es. 0 \<le> size_bytes (snd x)" and "exactSize es \<le> T"
    and "T \<le> MAX_SAFE_INTEGER" and "j < lru_count T es"
  shows "T - exactSize (take j es) > maxCacheSize"
  using assms
proof (induction es arbitrary: T j)
  case Nil
  then show ?case by simp
next
  case (Cons a es)
  have over: "T > maxCacheSize" using Cons.prems(4) by (auto split: if_splits)
  show ?case
  proof (cases j)
    case 0
    with over show ?thesis by simp
  next
    case (Suc i)
    have na: "0 \<le> size_bytes (snd a)" using Cons.prems(1) by simp
    have nn: "0 \<le> exactSize es" using Cons.prems(1) by (intro exactSize_nonneg) simp
    have sub: "number_sub T (size_bytes (snd a)) = T - size_bytes (snd a)"
      using Cons.prems(2,3) na nn by (intro number_sub_exact) simp_all
    from Suc Cons.prems(4) over have "i < lru_count (T - size_bytes (snd a)) es"
      by (simp add: sub)
    moreover have "\<forall>x\<in>set es. 0 \<le> size_bytes (snd x)" using Cons.prems(1) by simp
    moreover have "exactSize es \<le> T - size_bytes (snd a)" using Cons.prems(2) by simp
    moreover have "T - size_bytes (snd a) \<le> MAX_SAFE_INTEGER" using Cons.prems(3) na by simp
    ultimately have "T - size_bytes (snd a) - exactSize (take i es) > maxCacheSize"
      by (intro Cons.IH)
    with Suc show ?thesis by simp
  qed
qed

lemma lru_count_stop:
  assumes "\<forall>x\<in>set es. 0 \<le> size_bytes (snd x)" and "exactSize es \<le> T"
    and "T \<le> MAX_SAFE_INTEGER" and "lru_count T es < length es"
  shows "T - exactSize (take (lru_count T es) es) \<le> maxCacheSize"
  using assms
proof (induction es arbitrary: T)
  case Nil
  then show ?case by simp
next
  case (Cons a es)
  show ?case
  proof (cases "T > maxCacheSize")
    case True
    have na: "0 \<le> size_bytes (snd a)" using Cons.prems(1) by simp
    have nn: "0 \<le> exactSize es" using Cons.prems(1) by (intro exactSize_nonneg) simp
    have sub: "number_sub T (size_bytes (snd a)) = T - size_bytes (snd a)"
      using Cons.prems(2,3) na nn by (intro number_sub_exact) simp_all
    from True Cons.prems(4) have "lru_count (T - size_bytes (snd a)) es < length es"
      by (simp add: sub)
    moreover have "\<forall>x\<in>set es. 0 \<le> size_bytes (snd x)" using Cons.prems(1) by simp
    moreover have "exactSize es \<le> T - size_bytes (snd a)" using Cons.prems(2) by simp
    moreover have "T - size_bytes (snd a) \<le> MAX_SAFE_INTEGER" using Cons.prems(3) na by simp
    ultimately have "T - size_bytes (snd a) - exactSize (take (lru_count (T - size_bytes (snd a)) es) es)
        \<le> maxCacheSize"
      by (intro Cons.IH)
    with True show ?thesis by (simp add: sub)
  next
    case False
    then show ?thesis by simp
  qed
qed

lemma can_unlink_other:
  "p \<noteq> q \<Longrightarrow> can_unlink env (fs(q := None)) p = can_unlink env fs p"
  by (simp add: can_unlink_def)

lemma sweep_deletable:
  assumes "\<forall>x\<in>set es. can_unlink env (files s) (path (snd x))"
    and "distinct (map (\<lambda>x. path (snd x)) es)"
  shows "cacheIndex (sweep env es T s) =
           [x \<leftarrow> cacheIndex s. fst x \<notin> fst ` set (take (lru_count T es) es)] \<and>
         files (sweep env es T s) =
           (\<lambda>p. if p \<in> (\<lambda>x. path (snd x)) ` set (take (lru_count T es) es) then None
                else files s p)"
  using assms
proof (induction es arbitrary: T s)
  case Nil
  then show ?case by simp
next
  case (Cons a es)
  obtain k e where a: "a = (k, e)" by (cases a)
  show ?case
  proof (cases "T > maxCacheSize")
    case False
    then show ?thesis by (simp add: a)
  next
    case True
    from Cons.prems(1) have cu: "can_unlink env (files s) (path e)" by (simp add: a)
    then obtain s1 where s1: "fs_unlink env (path e) s = Some s1"
      using fs_unlink_None_iff by (cases "fs_unlink env (path e) s") auto
    then have s1eq: "s1 = s\<lparr>files := (files s)(path e := None)\<rparr>"
      by (auto dest: fs_unlink_SomeD)
    let ?s = "s1\<lparr>cacheIndex := AList.delete k (cacheIndex s1)\<rparr>"
    let ?n = "lru_count (number_sub T (size_bytes e)) es"
    have IH: "cacheIndex (sweep env es (number_sub T (size_bytes e)) ?s) =
           [x \<leftarrow> cacheIndex ?s. fst x \<notin> fst ` set (take ?n es)] \<and>
         files (sweep env es (number_sub T (size_bytes e)) ?s) =
           (\<lambda>p. if p \<in> (\<lambda>x. path (snd x)) ` set (take ?n es) then None else files ?s p)"
    proof (rule Cons.IH)
      show "\<forall>x\<in>set es. can_unlink env (files ?s) (path (snd x))"
      proof
        fix x assume x: "x \<in> set es"
        with Cons.prems(2) have "path (snd x) \<noteq> path e"
          by (auto simp: a image_iff)
        moreover from x Cons.prems(1) have "can_unlink env (files s) (path (snd x))"
          by simp
        ultimately show "can_unlink env (files ?s) (path (snd x))"
          by (simp add: s1eq can_unlink_other)
      qed
      show "distinct (map (\<lambda>x. path (snd x)) es)" using Cons.prems(2) by simp
    qed
    have idx: "[x \<leftarrow> AList.delete k (cacheIndex s). fst x \<notin> fst ` set (take ?n es)]
        = [x \<leftarrow> cacheIndex s. fst x \<notin> fst ` set (take (Suc ?n) (a # es))]"
      by (auto simp: AList.delete_eq a intro!: filter_cong)
    have fl: "(\<lambda>p. if p \<in> (\<lambda>x. path (snd x)) ` set (take ?n es) then None else files ?s p)
        = (\<lambda>p. if p \<in> (\<lambda>x. path (snd x)) ` set (take (Suc ?n) (a # es)) then None else files s p)"
      by (auto simp: s1eq a fun_eq_iff)
    show ?thesis
      using True s1 IH idx fl by (simp add: a s1eq)
  qed
qed

lemma distinct_map_insort_key:
  "distinct (map g (insort_key k x xs)) \<longleftrightarrow> g x \<notin> g ` set xs \<and> distinct (map g xs)"
  by (induction xs) (auto simp: set_insort_key)

lemma distinct_map_sort_key:
  "distinct (map g (sort_key k xs)) \<longleftrightarrow> distinct (map g xs)"
  by (induction xs) (simp_all add: distinct_map_insort_key)

lemma sorted_sortedEntries: "sorted (map (\<lambda>x. lastUsed (snd x)) (sortedEntries idx))"
  by (simp add: sortedEntries_def)

lemma set_sortedEntries: "set (sortedEntries idx) = set idx"
  by (simp add: sortedEntries_def)

lemma length_sortedEntries: "length (sortedEntries idx) = length idx"
  by (simp add: sortedEntries_def)

lemma set_lru_evicted: "set (lru_evicted idx) \<subseteq> set idx"
proof -
  have "set (lru_evicted idx) \<subseteq> set (sortedEntries idx)"
    unfolding lru_evicted_def by (rule set_take_subset)
  then show ?thesis by (simp add: set_sortedEntries)
qed

lemma key_filter_eq:
  assumes "distinct (map fst idx)" and "set ev \<subseteq> set idx"
  shows "[x \<leftarrow> idx. fst x \<notin> fst ` set ev] = [x \<leftarrow> idx. x \<notin> set ev]"
proof (rule filter_cong [OF refl])
  fix x assume x: "x \<in> set idx"
  show "(fst x \<notin> fst ` set ev) = (x \<notin> set ev)"
  proof
    assume "fst x \<notin> fst ` set ev" then show "x \<notin> set ev" by auto
  next
    assume n: "x \<notin> set ev"
    show "fst x \<notin> fst ` set ev"
    proof
      assume "fst x \<in> fst ` set ev"
      then obtain y where y: "y \<in> set ev" "fst y = fst x" by auto
      with assms(2) have "y \<in> set idx" by auto
      with assms(1) x y(2) have "y = x"
        by (metis eq_key_imp_eq_value prod.collapse)
      with y n show False by simp
    qed
  qed
qed

lemma exactSize_filter_take:
  assumes "distinct idx" and "distinct L" and "set L = set idx"
  shows "exactSize [x \<leftarrow> idx. x \<notin> set (take n L)] = exactSize idx - exactSize (take n L)"
proof -
  let ?f = "\<lambda>a. size_bytes (snd a)"
  have d1: "distinct [x \<leftarrow> idx. x \<notin> set (take n L)]" using assms(1) by simp
  have "set L = set (take n L) \<union> set (drop n L)"
    by (metis append_take_drop_id set_append)
  moreover have "set (take n L) \<inter> set (drop n L) = {}"
    using assms(2) by (metis append_take_drop_id distinct_append)
  ultimately have s: "set [x \<leftarrow> idx. x \<notin> set (take n L)] = set (drop n L)"
    using assms(3) by auto
  have "sum_list (map ?f [x \<leftarrow> idx. x \<notin> set (take n L)]) = sum ?f (set (drop n L))"
    using d1 s by (simp add: sum_list_distinct_conv_sum_set del: set_filter)
  also have "\<dots> = sum_list (map ?f (drop n L))"
    using assms(2) by (simp add: sum_list_distinct_conv_sum_set)
  finally have a: "sum_list (map ?f [x \<leftarrow> idx. x \<notin> set (take n L)]) = sum_list (map ?f (drop n L))" .
  have "sum_list (map ?f idx) = sum ?f (set L)"
    using assms(1,3) by (simp add: sum_list_distinct_conv_sum_set)
  also have "\<dots> = sum_list (map ?f L)"
    using assms(2) by (simp add: sum_list_distinct_conv_sum_set)
  also have "\<dots> = sum_list (map ?f (take n L)) + sum_list (map ?f (drop n L))"
    by (metis append_take_drop_id map_append sum_list_append)
  finally show ?thesis using a by (simp add: exactSize_def)
qed

lemma manageCacheSize_lru_aux:
  assumes dk: "distinct (map fst (cacheIndex s))"
    and del: "\<forall>x\<in>set (cacheIndex s). can_unlink env (files s) (path (snd x))"
    and dp: "distinct (map (\<lambda>x. path (snd x)) (cacheIndex s))"
  shows "cacheIndex (manageCacheSize env s) = [x \<leftarrow> cacheIndex s. x \<notin> set (lru_evicted (cacheIndex s))]"
    and "\<forall>x\<in>set (lru_evicted (cacheIndex s)). files (manageCacheSize env s) (path (snd x)) = None"
    and "\<forall>p. p \<notin> (\<lambda>x. path (snd x)) ` set (lru_evicted (cacheIndex s)) \<longrightarrow>
           files (manageCacheSize env s) p = files s p"
proof -
  let ?idx = "cacheIndex s"
  let ?L = "sortedEntries ?idx"
  have sw: "cacheIndex (sweep env ?L (totalSize ?L) s) =
           [x \<leftarrow> ?idx. fst x \<notin> fst ` set (take (lru_count (totalSize ?L) ?L) ?L)] \<and>
         files (sweep env ?L (totalSize ?L) s) =
           (\<lambda>p. if p \<in> (\<lambda>x. path (snd x)) ` set (take (lru_count (totalSize ?L) ?L) ?L) then None
                else files s p)"
    using del dp
    by (intro sweep_deletable) (simp_all add: sortedEntries_def distinct_map_sort_key)
  have ev: "take (lru_count (totalSize ?L) ?L) ?L = lru_evicted ?idx"
    by (simp add: lru_evicted_def)
  show "cacheIndex (manageCacheSize env s) = [x \<leftarrow> ?idx. x \<notin> set (lru_evicted ?idx)]"
    using sw key_filter_eq [OF dk set_lru_evicted]
    by (simp add: manageCacheSize_def ev)
  show "\<forall>x\<in>set (lru_evicted ?idx). files (manageCacheSize env s) (path (snd x)) = None"
    using sw by (simp add: manageCacheSize_def ev)
  show "\<forall>p. p \<notin> (\<lambda>x. path (snd x)) ` set (lru_evicted ?idx) \<longrightarrow>
           files (manageCacheSize env s) p = files s p"
    using sw by (simp add: manageCacheSize_def ev)
qed

lemma lru_evicted_older:
  assumes "distinct idx"
  shows "\<forall>x\<in>set (lru_evicted idx). \<forall>y\<in>set [x \<leftarrow> idx. x \<notin> set (lru_evicted idx)].
           lastUsed (snd x) \<le> lastUsed (snd y)"
proof -
  let ?L = "sortedEntries idx"
  let ?n = "lru_count (totalSize ?L) ?L"
  have "sorted (map (\<lambda>x. lastUsed (snd x)) (take ?n ?L @ drop ?n ?L))"
    by (simp add: sorted_sortedEntries)
  then have o: "\<forall>x\<in>set (take ?n ?L). \<forall>y\<in>set (drop ?n ?L). lastUsed (snd x) \<le> lastUsed (snd y)"
    unfolding map_append sorted_append by auto
  have "set ?L = set (take ?n ?L) \<union> set (drop ?n ?L)"
    by (metis append_take_drop_id set_append)
  then have "set [x \<leftarrow> idx. x \<notin> set (take ?n ?L)] \<subseteq> set (drop ?n ?L)"
    by (auto simp: set_sortedEntries)
  with o show ?thesis
    unfolding lru_evicted_def by blast
qed

subsection \<open>Entries whose file cannot be deleted\<close>

lemma logger_fields [simp]:
  "cacheIndex (logger lv m s) = cacheIndex s"
  "files (logger lv m s) = files s"
  "modelConfigs (logger lv m s) = modelConfigs s"
  "ticks (logger lv m s) = ticks s"
  "fetched (logger lv m s) = fetched s"
  "indexFile (logger lv m s) = indexFile s"
  "logged (logger lv m s) = logged s @ [(lv, m)]"
  by (simp_all add: logger_def)

lemma eq_key_entry:
  "distinct (map fst idx) \<Longrightarrow> (k, e) \<in> set idx \<Longrightarrow> (k, e') \<in> set idx \<Longrightarrow> e = e'"
  by (rule eq_key_imp_eq_value)

lemma set_delete_conv: "set (AList.delete k idx) = {x \<in> set idx. fst x \<noteq> k}"
  by (auto simp: AList.delete_eq)

lemma sweep_keeps_stuck:
  assumes "\<forall>x\<in>set es. fst x = k \<longrightarrow> path (snd x) = path e"
    and "(k, e) \<in> set (cacheIndex s)" and "\<not> can_unlink env (files s) (path e)"
  shows "(k, e) \<in> set (cacheIndex (sweep env es T s)) \<and>
         files (sweep env es T s) (path e) = files s (path e)"
  using assms
proof (induction es arbitrary: T s)
  case Nil
  then show ?case by simp
next
  case (Cons a es)
  obtain k' e' where a: "a = (k', e')" by (cases a)
  from Cons.prems(1) have rest: "\<forall>x\<in>set es. fst x = k \<longrightarrow> path (snd x) = path e"
    by simp
  show ?case
  proof (cases "T > maxCacheSize")
    case False
    then show ?thesis using Cons.prems by (simp add: a)
  next
    case over: True
    show ?thesis
    proof (cases "fs_unlink env (path e') s")
      case None
      let ?s = "logger Warn ''Failed to remove old cache entry'' s"
      have "(k, e) \<in> set (cacheIndex (sweep env es T ?s)) \<and>
         files (sweep env es T ?s) (path e) = files ?s (path e)"
        using rest Cons.prems(2,3) by (intro Cons.IH) simp_all
      with None over show ?thesis by (simp add: a)
    next
      case (Some s1)
      then have s1: "s1 = s\<lparr>files := (files s)(path e' := None)\<rparr>"
        and cu: "can_unlink env (files s) (path e')"
        by (auto dest: fs_unlink_SomeD)
      from cu Cons.prems(3) have pne: "path e' \<noteq> path e" by auto
      with Cons.prems(1) have kne: "k' \<noteq> k" by (auto simp: a)
      let ?s = "s1\<lparr>cacheIndex := AList.delete k' (cacheIndex s1)\<rparr>"
      have "(k, e) \<in> set (cacheIndex (sweep env es (number_sub T (size_bytes e')) ?s)) \<and>
         files (sweep env es (number_sub T (size_bytes e')) ?s) (path e) = files ?s (path e)"
      proof (rule Cons.IH [OF rest])
        show "(k, e) \<in> set (cacheIndex ?s)"
          using Cons.prems(2) kne by (simp add: s1 set_delete_conv)
        show "\<not> can_unlink env (files ?s) (path e)"
          using Cons.prems(3) pne by (simp add: s1 can_unlink_other)
      qed
      with Some over pne show ?thesis by (simp add: a s1)
    qed
  qed
qed

lemma manageCacheSize_keeps_stuck:
  assumes "distinct (map fst (cacheIndex s))"
    and "(k, e) \<in> set (cacheIndex s)" and "\<not> can_unlink env (files s) (path e)"
  shows "(k, e) \<in> set (cacheIndex (manageCacheSize env s)) \<and>
         files (manageCacheSize env s) (path e) = files s (path e)"
proof -
  have "\<forall>x\<in>set (sortedEntries (cacheIndex s)). fst x = k \<longrightarrow> path (snd x) = path e"
  proof
    fix x assume "x \<in> set (sortedEntries (cacheIndex s))"
    then have x: "(fst x, snd x) \<in> set (cacheIndex s)" by (simp add: set_sortedEntries)
    show "fst x = k \<longrightarrow> path (snd x) = path e"
    proof
      assume "fst x = k"
      with x assms(1,2) have "snd x = e" by (auto dest: eq_key_entry)
      then show "path (snd x) = path e" by simp
    qed
  qed
  from sweep_keeps_stuck [OF this assms(2,3)] show ?thesis
    by (simp add: manageCacheSize_def)
qed

lemma sweep_step_failure:
  "maxCacheSize < T \<Longrightarrow> \<not> can_unlink env (files s) (path e) \<Longrightarrow>
   sweep env ((k, e) # es) T s = sweep env es T (logger Warn ''Failed to remove old cache entry'' s)"
  using fs_unlink_None_iff [of env "path e" s] by simp

subsection \<open>The cache lookup\<close>

lemma getModelFromCache_expired_aux:
  assumes "map_of (cacheIndex s) n = Some e" and "files s (path e) = Some nd"
    and "maxModelAge \<le> now env (ticks s) - lastUsed e"
  shows "getModelFromCache env n s = (None, s\<lparr>ticks := Suc (ticks s)\<rparr>)"
  using assms by (simp add: getModelFromCache_def fs_stat_def Date_now_def)

lemma getModelFromCache_missing_aux:
  assumes "map_of (cacheIndex s) n = Some e" and "files s (path e) = None"
  shows "getModelFromCache env n s =
           (None, saveCacheIndex env (s\<lparr>cacheIndex := AList.delete n (cacheIndex s)\<rparr>))"
  using assms by (simp add: getModelFromCache_def fs_stat_def)

lemma map_of_delete_same: "map_of (AList.delete k al) k = None"
  by (simp add: delete_conv')

lemma getModelFromCache_files [simp]: "files (snd (getModelFromCache env n s)) = files s"
  by (simp add: getModelFromCache_def fs_stat_def Date_now_def Let_def split: option.splits prod.splits)

lemma getModelFromCache_fetched [simp]: "fetched (snd (getModelFromCache env n s)) = fetched s"
  by (simp add: getModelFromCache_def fs_stat_def Date_now_def Let_def split: option.splits prod.splits)

lemma getModelFromCache_modelConfigs [simp]:
  "modelConfigs (snd (getModelFromCache env n s)) = modelConfigs s"
  by (simp add: getModelFromCache_def fs_stat_def Date_now_def Let_def split: option.splits prod.splits)

lemma getModelFromCache_keys:
  "fst ` set (cacheIndex (snd (getModelFromCache env n s))) \<subseteq> fst ` set (cacheIndex s)"
proof (cases "map_of (cacheIndex s) n")
  case None
  then show ?thesis by (simp add: getModelFromCache_def)
next
  case (Some e)
  then have "n \<in> fst ` set (cacheIndex s)"
    by (metis domI dom_map_of_conv_image_fst)
  then have "fst ` set (AList.update n v (cacheIndex s)) \<subseteq> fst ` set (cacheIndex s)" for v
    by (auto simp: dom_update)
  moreover have "fst ` set (AList.delete n (cacheIndex s)) \<subseteq> fst ` set (cacheIndex s)"
    by (rule dom_delete_subset)
  ultimately show ?thesis using Some
    by (simp add: getModelFromCache_def fs_stat_def Date_now_def Let_def split: option.splits)
qed

text \<open>A lookup that misses, misses again when repeated at once, if the clock does not run backwards.\<close>

lemma getModelFromCache_miss_again:
  assumes "\<not> truthy (fst (getModelFromCache env n s))"
    and "now env (ticks s) \<le> now env (Suc (ticks s))"
  shows "\<not> truthy (fst (getModelFromCache env n (snd (getModelFromCache env n s))))"
proof (cases "map_of (cacheIndex s) n")
  case None
  then show ?thesis by (simp add: getModelFromCache_def)
next
  case (Some e)
  show ?thesis
  proof (cases "files s (path e)")
    case None
    with Some show ?thesis
      by (simp add: getModelFromCache_missing_aux) (simp add: getModelFromCache_def map_of_delete_same)
  next
    case st: (Some nd)
    show ?thesis
    proof (cases "isFile nd \<and> now env (ticks s) - lastUsed e < maxModelAge")
      case True
      with assms(1) Some st have "path e = []"
        by (simp add: getModelFromCache_def fs_stat_def Date_now_def Let_def)
      with True Some st show ?thesis
        by (simp add: getModelFromCache_def fs_stat_def Date_now_def Let_def update_conv')
    next
      case False
      with Some st have 1: "getModelFromCache env n s = (None, s\<lparr>ticks := Suc (ticks s)\<rparr>)"
        by (auto simp: getModelFromCache_def fs_stat_def Date_now_def Let_def)
      from False assms(2) have "\<not> (isFile nd \<and> now env (Suc (ticks s)) - lastUsed e < maxModelAge)"
        by auto
      with Some st show ?thesis
        unfolding 1 by (auto simp: getModelFromCache_def fs_stat_def Date_now_def Let_def)
    qed
  qed
qed

subsection \<open>Downloads\<close>

lemma fs_copyFile_fields [simp]:
  "cacheIndex (snd (fs_copyFile env p q s)) = cacheIndex s"
  "fetched (snd (fs_copyFile env p q s)) = fetched s"
  "ticks (snd (fs_copyFile env p q s)) = ticks s"
  "modelConfigs (snd (fs_copyFile env p q s)) = modelConfigs s"
  by (simp_all add: fs_copyFile_def split: option.splits node.splits)

text \<open>A \<open>cacheModel\<close> that throws has not touched the index.\<close>

lemma cacheModel_fails:
  assumes "fst (cacheModel env n p v s) = Inl e"
  shows "cacheIndex (snd (cacheModel env n p v s)) = cacheIndex s"
proof (cases "fs_stat s p")
  case None
  then show ?thesis by (simp add: cacheModel_def)
next
  case (Some st)
  obtain b s1 where c: "fs_copyFile env p (cachedPathOf env n p v) s = (b, s1)"
    by (cases "fs_copyFile env p (cachedPathOf env n p v) s")
  have i1: "cacheIndex s1 = cacheIndex s"
    using fs_copyFile_fields(1) [of env p "cachedPathOf env n p v" s] by (simp add: c)
  show ?thesis
  proof (cases b)
    case True
    with assms Some c show ?thesis
      by (simp add: cacheModel_def Let_def Date_now_def)
  next
    case False
    with Some c i1 show ?thesis
      by (simp add: cacheModel_def Let_def)
  qed
qed

lemma manageCacheSize_fetched [simp]: "fetched (manageCacheSize env s) = fetched s"
  by (simp add: manageCacheSize_def sweep_frame)

lemma fs_writeFile_fetched: "fs_writeFile env p dat s = Some s' \<Longrightarrow> fetched s' = fetched s"
  by (auto simp: fs_writeFile_def split: if_splits)

lemma fs_writeFile_cacheIndex: "fs_writeFile env p dat s = Some s' \<Longrightarrow> cacheIndex s' = cacheIndex s"
  by (auto simp: fs_writeFile_def split: if_splits)

lemma cacheModel_fetched [simp]: "fetched (snd (cacheModel env n p v s)) = fetched s"
proof (cases "fs_stat s p")
  case None
  then show ?thesis by (simp add: cacheModel_def)
next
  case (Some st)
  obtain b s1 where c: "fs_copyFile env p (cachedPathOf env n p v) s = (b, s1)"
    by (cases "fs_copyFile env p (cachedPathOf env n p v) s")
  have "fetched s1 = fetched s"
    using fs_copyFile_fields(2) [of env p "cachedPathOf env n p v" s] by (simp add: c)
  with Some c show ?thesis
    by (cases b) (simp_all add: cacheModel_def Let_def Date_now_def)
qed

lemma downloadModel_no_space:
  "\<not> checkDiskSpace env (requiredDiskSpace cfg) \<Longrightarrow>
   downloadModel env cfg s = (None, logger Error ''Insufficient disk space for model download'' s)"
  by (simp add: downloadModel_def)

text \<open>What \<open>downloadModel\<close> does once the space check has passed and the lookup has missed.\<close>

lemma downloadModel_attempt:
  assumes "checkDiskSpace env (requiredDiskSpace cfg)"
    and "getModelFromCache env (name cfg) s = (c, s1)" and "\<not> truthy c"
    and "s3 = (logger Info ''Downloading model'' s1)
                 \<lparr>fetched := fetched (logger Info ''Downloading model'' s1) @ [url cfg]\<rparr>"
  shows "downloadModel env cfg s =
     (case fetch env (url cfg) of
        Rejected \<Rightarrow> (None, logger Error ''Model download failed'' s3)
      | Response response_ok status modelData \<Rightarrow>
          if \<not> response_ok then (None, logger Error ''Model download failed'' s3)
          else
            (case modelData of
               None \<Rightarrow> (None, logger Error ''Model download failed'' s3)
             | Some dat \<Rightarrow>
                 (case fs_writeFile env (localPath cfg) dat s3 of
                    None \<Rightarrow> (None, logger Error ''Model download failed'' s3)
                  | Some s4 \<Rightarrow>
                      (case cacheModel env (name cfg) (localPath cfg) (version_cfg cfg) s4 of
                         (Inl e, s5) \<Rightarrow> (None, logger Error ''Model download failed'' s5)
                       | (Inr p, s5) \<Rightarrow> (Some p, s5)))))"
  unfolding downloadModel_def Let_def assms(4) using assms(1-3) by simp

lemma downloadModel_fetches:
  assumes "checkDiskSpace env (requiredDiskSpace cfg)"
    and "\<not> truthy (fst (getModelFromCache env (name cfg) s))"
  shows "fetched (snd (downloadModel env cfg s)) = fetched s @ [url cfg]"
proof -
  obtain c s1 where l: "getModelFromCache env (name cfg) s = (c, s1)"
    by (cases "getModelFromCache env (name cfg) s")
  have f1: "fetched s1 = fetched s"
    using getModelFromCache_fetched [of env "name cfg" s] by (simp add: l)
  from assms(2) l have nt: "\<not> truthy c" by simp
  define s3 where "s3 = (logger Info ''Downloading model'' s1)
        \<lparr>fetched := fetched (logger Info ''Downloading model'' s1) @ [url cfg]\<rparr>"
  have f3: "fetched s3 = fetched s @ [url cfg]" by (simp add: s3_def f1)
  note d = downloadModel_attempt [OF assms(1) l nt s3_def]
  show ?thesis
  proof (cases "fetch env (url cfg)")
    case Rejected
    then show ?thesis by (simp add: d f3)
  next
    case (Response response_ok status modelData)
    show ?thesis
    proof (cases "response_ok \<and> modelData \<noteq> None")
      case False
      with Response show ?thesis by (cases modelData) (auto simp: d f3)
    next
      case True
      then obtain dat where dat: "modelData = Some dat" and rok: response_ok by auto
      show ?thesis
      proof (cases "fs_writeFile env (localPath cfg) dat s3")
        case None
        with Response dat rok show ?thesis by (simp add: d f3)
      next
        case (Some s4)
        then have f4: "fetched s4 = fetched s @ [url cfg]"
          using f3 by (auto dest: fs_writeFile_fetched)
        obtain r s5 where cm: "cacheModel env (name cfg) (localPath cfg) (version_cfg cfg) s4 = (r, s5)"
          by (cases "cacheModel env (name cfg) (localPath cfg) (version_cfg cfg) s4")
        have "fetched s5 = fetched s @ [url cfg]"
          using cacheModel_fetched [of env "name cfg" "localPath cfg" "version_cfg cfg" s4]
          by (simp add: cm f4)
        with Response dat rok Some cm show ?thesis
          by (cases r) (simp_all add: d)
      qed
    qed
  qed
qed

lemma downloadModel_None_index:
  assumes "fst (downloadModel env cfg s) = None"
  shows "cacheIndex (snd (downloadModel env cfg s)) = cacheIndex s \<or>
         cacheIndex (snd (downloadModel env cfg s)) =
           cacheIndex (snd (getModelFromCache env (name cfg) s))"
proof (cases "checkDiskSpace env (requiredDiskSpace cfg)")
  case False
  then show ?thesis by (simp add: downloadModel_no_space)
next
  case space: True
  obtain c s1 where l: "getModelFromCache env (name cfg) s = (c, s1)"
    by (cases "getModelFromCache env (name cfg) s")
  show ?thesis
  proof (cases "truthy c")
    case True
    with assms space l show ?thesis
      by (cases c) (simp_all add: downloadModel_def)
  next
    case nt: False
    define s3 where "s3 = (logger Info ''Downloading model'' s1)
        \<lparr>fetched := fetched (logger Info ''Downloading model'' s1) @ [url cfg]\<rparr>"
    have i3: "cacheIndex s3 = cacheIndex s1" by (simp add: s3_def)
    note d = downloadModel_attempt [OF space l nt s3_def]
    have goal: "cacheIndex (snd (downloadModel env cfg s)) = cacheIndex s1"
    proof (cases "fetch env (url cfg)")
      case Rejected
      then show ?thesis by (simp add: d i3)
    next
      case (Response response_ok status modelData)
      show ?thesis
      proof (cases "response_ok \<and> modelData \<noteq> None")
        case False
        with Response show ?thesis by (cases modelData) (auto simp: d i3)
      next
        case True
        then obtain dat where dat: "modelData = Some dat" and rok: response_ok by auto
        show ?thesis
        proof (cases "fs_writeFile env (localPath cfg) dat s3")
          case None
          with Response dat rok show ?thesis by (simp add: d i3)
        next
          case (Some s4)
          then have i4: "cacheIndex s4 = cacheIndex s1"
            using i3 by (auto dest: fs_writeFile_cacheIndex)
          obtain r s5 where cm: "cacheModel env (name cfg) (localPath cfg) (version_cfg cfg) s4 = (r, s5)"
            by (cases "cacheModel env (name cfg) (localPath cfg) (version_cfg cfg) s4")
          show ?thesis
          proof (cases r)
            case (Inl e)
            with cm cacheModel_fails [of env "name cfg" "localPath cfg" "version_cfg cfg" s4 e]
            have "cacheIndex s5 = cacheIndex s4" by simp
            with Response dat rok Some cm Inl show ?thesis by (simp add: d i4)
          next
            case (Inr p)
            with Response dat rok Some cm assms show ?thesis by (simp add: d)
          qed
        qed
      qed
    qed
    then show ?thesis by (simp add: l)
  qed
qed

subsection \<open>A model larger than the ceiling\<close>

lemma sweep_no_new_files: "files s p = None \<Longrightarrow> files (sweep env es T s) p = None"
proof (induction es arbitrary: T s)
  case Nil
  then show ?case by simp
next
  case (Cons a es)
  obtain k e where a: "a = (k, e)" by (cases a)
  show ?case
  proof (cases "fs_unlink env (path e) s")
    case None
    with Cons show ?thesis by (simp add: a)
  next
    case (Some s1)
    then have "s1 = s\<lparr>files := (files s)(path e := None)\<rparr>" by (auto dest: fs_unlink_SomeD)
    with Some Cons show ?thesis by (simp add: a)
  qed
qed

lemma sweep_keys_subset:
  "fst ` set (cacheIndex (sweep env es T s)) \<subseteq> fst ` set (cacheIndex s)"
proof (induction es arbitrary: T s)
  case Nil
  then show ?case by simp
next
  case (Cons a es)
  obtain k e where a: "a = (k, e)" by (cases a)
  show ?case
  proof (cases "fs_unlink env (path e) s")
    case None
    with Cons [of T "logger Warn ''Failed to remove old cache entry'' s"] show ?thesis
      by (simp add: a)
  next
    case (Some s1)
    then have s1: "s1 = s\<lparr>files := (files s)(path e := None)\<rparr>" by (auto dest: fs_unlink_SomeD)
    have "fst ` set (cacheIndex (sweep env es (number_sub T (size_bytes e))
              (s1\<lparr>cacheIndex := AList.delete k (cacheIndex s1)\<rparr>)))
        \<subseteq> fst ` set (AList.delete k (cacheIndex s))"
      using Cons [of "number_sub T (size_bytes e)" "s1\<lparr>cacheIndex := AList.delete k (cacheIndex s1)\<rparr>"]
      by (simp add: s1)
    also have "\<dots> \<subseteq> fst ` set (cacheIndex s)" by (rule dom_delete_subset)
    finally show ?thesis using Some by (simp add: a)
  qed
qed

lemma sweep_oversized:
  assumes "(n, e) \<in> set es" and "distinct (map fst es)" and "set es \<subseteq> set (cacheIndex s)"
    and "distinct (map fst (cacheIndex s))" and "T = exactSize (cacheIndex s)"
    and "\<forall>x\<in>set (cacheIndex s). 0 \<le> size_bytes (snd x)" and "maxCacheSize < size_bytes e"
    and "can_unlink env (files s) (path e)"
    and "\<forall>x\<in>set es. fst x \<noteq> n \<longrightarrow> path (snd x) \<noteq> path e"
    and "exactSize (cacheIndex s) \<le> MAX_SAFE_INTEGER"
  shows "files (sweep env es T s) (path e) = None \<and>
         n \<notin> fst ` set (cacheIndex (sweep env es T s))"
  using assms
proof (induction es arbitrary: T s)
  case Nil
  then show ?case by simp
next
  case (Cons a es)
  obtain k' e' where a: "a = (k', e')" by (cases a)
  have memi: "(n, e) \<in> set (cacheIndex s)" using Cons.prems(1,3) by auto
  have "size_bytes (snd (n, e)) \<le> exactSize (cacheIndex s)"
    using Cons.prems(6) memi by (rule exactSize_ge_member)
  with Cons.prems(5,7) have over: "maxCacheSize < T" by simp
  have mem': "(k', e') \<in> set (cacheIndex s)" using Cons.prems(3) by (simp add: a)
  have knotin: "k' \<notin> fst ` set es" using Cons.prems(2) by (simp add: a)
  show ?case
  proof (cases "k' = n")
    case True
    with mem' memi Cons.prems(4) have ee: "e' = e" by (auto dest: eq_key_entry)
    from Cons.prems(8) obtain s1 where s1: "fs_unlink env (path e) s = Some s1"
      using fs_unlink_None_iff by (cases "fs_unlink env (path e) s") auto
    then have s1eq: "s1 = s\<lparr>files := (files s)(path e := None)\<rparr>"
      by (auto dest: fs_unlink_SomeD)
    let ?s = "s1\<lparr>cacheIndex := AList.delete n (cacheIndex s1)\<rparr>"
    have "files (sweep env es (number_sub T (size_bytes e)) ?s) (path e) = None"
      by (rule sweep_no_new_files) (simp add: s1eq)
    moreover have "fst ` set (cacheIndex (sweep env es (number_sub T (size_bytes e)) ?s))
        \<subseteq> fst ` set (cacheIndex ?s)"
      by (rule sweep_keys_subset)
    then have "n \<notin> fst ` set (cacheIndex (sweep env es (number_sub T (size_bytes e)) ?s))"
      using delete_notin_dom [of n "cacheIndex s"] by (auto simp: s1eq)
    ultimately show ?thesis
      using over s1 True ee by (simp add: a)
  next
    case False
    with Cons.prems(1) have mem: "(n, e) \<in> set es" by (simp add: a)
    from Cons.prems(9) have rest: "\<forall>x\<in>set es. fst x \<noteq> n \<longrightarrow> path (snd x) \<noteq> path e"
      by simp
    from Cons.prems(9) False have pne: "path e' \<noteq> path e" by (simp add: a)
    from Cons.prems(2) have des: "distinct (map fst es)" by simp
    show ?thesis
    proof (cases "fs_unlink env (path e') s")
      case None
      let ?s = "logger Warn ''Failed to remove old cache entry'' s"
      have "files (sweep env es T ?s) (path e) = None \<and>
         n \<notin> fst ` set (cacheIndex (sweep env es T ?s))"
        using mem des rest Cons.prems(3-8,10) by (intro Cons.IH) simp_all
      with None over show ?thesis by (simp add: a)
    next
      case (Some s1)
      then have s1: "s1 = s\<lparr>files := (files s)(path e' := None)\<rparr>"
        by (auto dest: fs_unlink_SomeD)
      let ?s = "s1\<lparr>cacheIndex := AList.delete k' (cacheIndex s1)\<rparr>"
      note ns = number_sub_member [OF Cons.prems(4) mem' Cons.prems(6,10)]
      have "files (sweep env es (number_sub T (size_bytes e')) ?s) (path e) = None \<and>
         n \<notin> fst ` set (cacheIndex (sweep env es (number_sub T (size_bytes e')) ?s))"
      proof (rule Cons.IH [OF mem des])
        show "set es \<subseteq> set (cacheIndex ?s)"
          using Cons.prems(3) knotin by (force simp: s1 set_delete_conv a image_iff)
        show "distinct (map fst (cacheIndex ?s))"
          using Cons.prems(4) by (simp add: s1 distinct_delete)
        show "number_sub T (size_bytes e') = exactSize (cacheIndex ?s)"
          using ns(1) by (simp add: s1 Cons.prems(5))
        show "\<forall>x\<in>set (cacheIndex ?s). 0 \<le> size_bytes (snd x)"
          using ns(3) by (simp add: s1)
        show "exactSize (cacheIndex ?s) \<le> MAX_SAFE_INTEGER"
          using ns(2) by (simp add: s1)
        show "maxCacheSize < size_bytes e" by (rule Cons.prems(7))
        show "can_unlink env (files ?s) (path e)"
          using Cons.prems(8) pne by (simp add: s1 can_unlink_other)
        show "\<forall>x\<in>set es. fst x \<noteq> n \<longrightarrow> path (snd x) \<noteq> path e" by (rule rest)
      qed
      with Some over show ?thesis by (simp add: a)
    qed
  qed
qed

lemma set_update_cases:
  "distinct (map fst al) \<Longrightarrow> x \<in> set (AList.update k v al) \<Longrightarrow>
   x = (k, v) \<or> (x \<in> set al \<and> fst x \<noteq> k)"
  by (induction al) (auto split: if_splits simp: image_iff)

lemma update_member: "(k, v) \<in> set (AList.update k v al)"
  by (induction al) auto

lemma exactSize_update_le:
  "\<forall>x\<in>set idx. 0 \<le> size_bytes (snd x) \<Longrightarrow>
   exactSize (AList.update k v idx) \<le> exactSize idx + size_bytes v"
  by (induction idx) auto

subsection \<open>Ties\<close>

lemma filter_take_prefix:
  "filter P (take n xs) = take (length (filter P (take n xs))) (filter P xs)"
proof -
  have "filter P xs = filter P (take n xs) @ filter P (drop n xs)"
    by (metis append_take_drop_id filter_append)
  then show ?thesis by simp
qed

lemma sortedEntries_ties:
  "[x \<leftarrow> sortedEntries idx. lastUsed (snd x) = t] = [x \<leftarrow> idx. lastUsed (snd x) = t]"
  unfolding sortedEntries_def by (rule sort_key_stable)

subsection \<open>The catalog and the acquisition\<close>

lemma loadCacheIndex_fields [simp]:
  "fetched (loadCacheIndex env s) = fetched s"
  "files (loadCacheIndex env s) = files s"
  by (simp_all add: loadCacheIndex_def split: option.splits)

lemma fs_mkdir_fetched: "fs_mkdir env p s = Some s' \<Longrightarrow> fetched s' = fetched s"
  by (auto simp: fs_mkdir_def split: option.splits node.splits if_splits)

lemma initializeCacheDirectory_fetched [simp]:
  "fetched (snd (initializeCacheDirectory env s)) = fetched s"
  by (auto simp: initializeCacheDirectory_def split: option.splits dest: fs_mkdir_fetched)

lemma initializeModelDirectory_fetched [simp]:
  "fetched (snd (initializeModelDirectory env s)) = fetched s"
proof (cases "fs_mkdir env (modelsDir env) s")
  case None
  then show ?thesis by (simp add: initializeModelDirectory_def)
next
  case (Some s1)
  obtain r s2 where i: "initializeCacheDirectory env s1 = (r, s2)"
    by (cases "initializeCacheDirectory env s1")
  have "fetched s2 = fetched s"
    using initializeCacheDirectory_fetched [of env s1] fs_mkdir_fetched [OF Some] by (simp add: i)
  with Some i show ?thesis
    by (cases r) (simp_all add: initializeModelDirectory_def)
qed

lemma getModelConfigs_fetched:
  "getModelConfigs env s = (r, s1) \<Longrightarrow> fetched s1 = fetched s"
proof -
  assume a: "getModelConfigs env s = (r, s1)"
  obtain r' s' where i: "initializeModelDirectory env s = (r', s')"
    by (cases "initializeModelDirectory env s")
  have "fetched s' = fetched s"
    using initializeModelDirectory_fetched [of env s] by (simp add: i)
  with a i show ?thesis
    by (cases r') (auto simp: getModelConfigs_def split: if_splits)
qed

lemma attemptDownload_fetched [simp]:
  "fetched (snd (attemptDownload env t cfg s)) = fetched (snd (downloadModel env cfg s))"
  by (simp add: attemptDownload_def split: prod.splits)

lemma attemptDownload_None:
  "fst (downloadModel env cfg s) = None \<Longrightarrow> fst (attemptDownload env t cfg s) = None"
  by (cases "downloadModel env cfg s") (simp add: attemptDownload_def)

lemma ensureModelAvailable_absent:
  assumes "getModelConfigs env s = (Inr configs, s1)"
    and "find (\<lambda>config. type_cfg config = modelType) configs = Some cfg"
    and "\<not> truthy (fst (getModelFromCache env (name cfg) s1))"
    and "files s1 (localPath cfg) = None"
  shows "ensureModelAvailable env modelType s =
           attemptDownload env modelType cfg (snd (getModelFromCache env (name cfg) s1))"
proof -
  obtain c s2 where l: "getModelFromCache env (name cfg) s1 = (c, s2)"
    by (cases "getModelFromCache env (name cfg) s1")
  have "files s2 = files s1"
    using getModelFromCache_files [of env "name cfg" s1] by (simp add: l)
  with assms l show ?thesis
    by (simp add: ensureModelAvailable_def fs_access_def)
qed

lemma checkDiskSpace_iff: "checkDiskSpace env r = (r < snd (getDiskSpace env))"
  by (simp add: checkDiskSpace_def split: prod.splits)

text \<open>Every descriptor of the catalog asks for less than \<open>getDiskSpace\<close> reports.\<close>

lemma catalog_descriptor_space:
  assumes "catalog_descriptor env cfg"
  shows "requiredDiskSpace cfg < snd (getDiskSpace env)"
proof -
  from assms obtain c where c: "c \<in> set (catalog env)" and e: "cfg = c\<lparr>localPath := localPath cfg\<rparr>"
    by (auto simp: catalog_descriptor_def list_ex_iff)
  from e have "requiredDiskSpace cfg = requiredDiskSpace (c\<lparr>localPath := localPath cfg\<rparr>)"
    by (rule arg_cong)
  then have "requiredDiskSpace cfg = requiredDiskSpace c" by simp
  with c show ?thesis
    by (auto simp: catalog_def getDiskSpace_def placeholderDiskSpace_def)
qed

lemma getModelFromCache_indexes:
  "map_of (cacheIndex s) n = None \<Longrightarrow> getModelFromCache env n s = (None, s)"
  by (simp add: getModelFromCache_def)

lemma downloadModel_attempt_fails:
  assumes "checkDiskSpace env (requiredDiskSpace cfg)"
    and "\<not> truthy (fst (getModelFromCache env (name cfg) s))"
    and "fetch env (url cfg) = Rejected
         \<or> (\<exists>st b. fetch env (url cfg) = Response False st b)
         \<or> (\<exists>st. fetch env (url cfg) = Response True st None)
         \<or> localPath cfg \<in> unwritable env"
  shows "fst (downloadModel env cfg s) = None \<and>
         files (snd (downloadModel env cfg s)) = files s"
proof -
  obtain c s1 where l: "getModelFromCache env (name cfg) s = (c, s1)"
    by (cases "getModelFromCache env (name cfg) s")
  from assms(2) l have nt: "\<not> truthy c" by simp
  have f1: "files s1 = files s"
    using getModelFromCache_files [of env "name cfg" s] by (simp add: l)
  define s3 where "s3 = (logger Info ''Downloading model'' s1)
        \<lparr>fetched := fetched (logger Info ''Downloading model'' s1) @ [url cfg]\<rparr>"
  have f3: "files s3 = files s" by (simp add: s3_def f1)
  note d = downloadModel_attempt [OF assms(1) l nt s3_def]
  have w: "fs_writeFile env (localPath cfg) dat s3 = None" if "localPath cfg \<in> unwritable env" for dat
    using that by (simp add: fs_writeFile_def)
  show ?thesis
  proof (cases "fetch env (url cfg)")
    case Rejected
    then show ?thesis by (simp add: d f3)
  next
    case (Response response_ok status modelData)
    show ?thesis
    proof (cases "response_ok")
      case False
      with Response show ?thesis by (simp add: d f3)
    next
      case True
      show ?thesis
      proof (cases modelData)
        case None
        with Response True show ?thesis by (simp add: d f3)
      next
        case (Some dat)
        with Response True assms(3) have "localPath cfg \<in> unwritable env" by auto
        with Response True Some show ?thesis by (simp add: d f3 w)
      qed
    qed
  qed
qed

subsection \<open>The index holds each name once\<close>

text \<open>
  The index is a \<open>Map\<close>: no name occurs twice in it. \<open>loadCacheIndex\<close> establishes this
  and every operation of the two managers keeps it, so the properties below assume it
  of the state they start from.
\<close>

lemma distinct_Map_of_pairs_aux:
  "distinct (map fst m) \<Longrightarrow>
   distinct (map fst (foldl (\<lambda>m kv. AList.update (fst kv) (snd kv) m) m ps))"
  by (induction ps arbitrary: m) (simp_all add: distinct_update)

lemma distinct_Map_of_pairs: "distinct (map fst (Map_of_pairs ps))"
  unfolding Map_of_pairs_def by (rule distinct_Map_of_pairs_aux) simp

lemma distinct_loadCacheIndex: "distinct (map fst (cacheIndex (loadCacheIndex env s)))"
  by (simp add: loadCacheIndex_def distinct_Map_of_pairs split: option.splits)

lemma distinct_sweep:
  "distinct (map fst (cacheIndex s)) \<Longrightarrow> distinct (map fst (cacheIndex (sweep env es T s)))"
proof (induction es arbitrary: T s)
  case Nil
  then show ?case by simp
next
  case (Cons a es)
  obtain k e where a: "a = (k, e)" by (cases a)
  show ?case
  proof (cases "fs_unlink env (path e) s")
    case None
    with Cons show ?thesis by (simp add: a)
  next
    case (Some s1)
    then have "s1 = s\<lparr>files := (files s)(path e := None)\<rparr>" by (auto dest: fs_unlink_SomeD)
    with Some Cons show ?thesis by (simp add: a distinct_delete)
  qed
qed

lemma distinct_manageCacheSize:
  "distinct (map fst (cacheIndex s)) \<Longrightarrow> distinct (map fst (cacheIndex (manageCacheSize env s)))"
  by (simp add: manageCacheSize_def distinct_sweep)

lemma distinct_getModelFromCache:
  "distinct (map fst (cacheIndex s)) \<Longrightarrow>
   distinct (map fst (cacheIndex (snd (getModelFromCache env n s))))"
  by (simp add: getModelFromCache_def fs_stat_def Date_now_def Let_def distinct_update
      distinct_delete split: option.splits)

lemma distinct_cacheModel:
  assumes "distinct (map fst (cacheIndex s))"
  shows "distinct (map fst (cacheIndex (snd (cacheModel env n p v s))))"
proof (cases "fs_stat s p")
  case None
  with assms show ?thesis by (simp add: cacheModel_def)
next
  case (Some st)
  obtain b s1 where c: "fs_copyFile env p (cachedPathOf env n p v) s = (b, s1)"
    by (cases "fs_copyFile env p (cachedPathOf env n p v) s")
  have "cacheIndex s1 = cacheIndex s"
    using fs_copyFile_fields(1) [of env p "cachedPathOf env n p v" s] by (simp add: c)
  with assms Some c show ?thesis
    by (cases b)
      (simp_all add: cacheModel_def Let_def Date_now_def distinct_manageCacheSize distinct_update)
qed

lemma distinct_downloadModel:
  assumes "distinct (map fst (cacheIndex s))"
  shows "distinct (map fst (cacheIndex (snd (downloadModel env cfg s))))"
proof (cases "checkDiskSpace env (requiredDiskSpace cfg)")
  case False
  with assms show ?thesis by (simp add: downloadModel_no_space)
next
  case space: True
  obtain c s1 where l: "getModelFromCache env (name cfg) s = (c, s1)"
    by (cases "getModelFromCache env (name cfg) s")
  have d1: "distinct (map fst (cacheIndex s1))"
    using distinct_getModelFromCache [OF assms, of env "name cfg"] by (simp add: l)
  show ?thesis
  proof (cases "truthy c")
    case True
    with space l d1 show ?thesis by (simp add: downloadModel_def)
  next
    case nt: False
    define s3 where "s3 = (logger Info ''Downloading model'' s1)
        \<lparr>fetched := fetched (logger Info ''Downloading model'' s1) @ [url cfg]\<rparr>"
    have d3: "distinct (map fst (cacheIndex s3))" using d1 by (simp add: s3_def)
    note d = downloadModel_attempt [OF space l nt s3_def]
    show ?thesis
    proof (cases "fetch env (url cfg)")
      case Rejected
      then show ?thesis using d3 by (simp add: d)
    next
      case (Response response_ok status modelData)
      show ?thesis
      proof (cases "response_ok \<and> modelData \<noteq> None")
        case False
        with Response d3 show ?thesis by (cases modelData) (auto simp: d)
      next
        case True
        then obtain dat where dat: "modelData = Some dat" and rok: response_ok by auto
        show ?thesis
        proof (cases "fs_writeFile env (localPath cfg) dat s3")
          case None
          with Response dat rok d3 show ?thesis by (simp add: d)
        next
          case (Some s4)
          then have "cacheIndex s4 = cacheIndex s3" by (rule fs_writeFile_cacheIndex)
          with d3 have d4: "distinct (map fst (cacheIndex s4))" by simp
          obtain r s5 where cm: "cacheModel env (name cfg) (localPath cfg) (version_cfg cfg) s4 = (r, s5)"
            by (cases "cacheModel env (name cfg) (localPath cfg) (version_cfg cfg) s4")
          have "distinct (map fst (cacheIndex s5))"
            using distinct_cacheModel [OF d4, of env "name cfg" "localPath cfg" "version_cfg cfg"]
            by (simp add: cm)
          with Response dat rok Some cm show ?thesis by (cases r) (simp_all add: d)
        qed
      qed
    qed
  qed
qed

lemma distinct_attemptDownload:
  assumes "distinct (map fst (cacheIndex s))"
  shows "distinct (map fst (cacheIndex (snd (attemptDownload env t cfg s))))"
proof -
  obtain r s1 where d: "downloadModel env cfg s = (r, s1)"
    by (cases "downloadModel env cfg s")
  have "distinct (map fst (cacheIndex s1))"
    using distinct_downloadModel [OF assms, of env cfg] by (simp add: d)
  then show ?thesis by (simp add: attemptDownload_def d)
qed

lemma distinct_cacheExisting:
  assumes "distinct (map fst (cacheIndex s))"
  shows "distinct (map fst (cacheIndex (snd (cacheExisting env t cfg s))))"
proof -
  obtain r s1 where c: "cacheModel env (name cfg) (localPath cfg) (version_cfg cfg) s = (r, s1)"
    by (cases "cacheModel env (name cfg) (localPath cfg) (version_cfg cfg) s")
  have d1: "distinct (map fst (cacheIndex s1))"
    using distinct_cacheModel [OF assms, of env "name cfg" "localPath cfg" "version_cfg cfg"]
    by (simp add: c)
  then show ?thesis
    by (cases r) (simp_all add: cacheExisting_def c distinct_attemptDownload)
qed

lemma fs_mkdir_cacheIndex: "fs_mkdir env p s = Some s' \<Longrightarrow> cacheIndex s' = cacheIndex s"
  by (auto simp: fs_mkdir_def split: option.splits node.splits if_splits)

lemma distinct_getModelConfigs:
  assumes "distinct (map fst (cacheIndex s))"
  shows "distinct (map fst (cacheIndex (snd (getModelConfigs env s))))"
proof (cases "length (modelConfigs s) > 0")
  case True
  with assms show ?thesis by (simp add: getModelConfigs_def)
next
  case False
  show ?thesis
  proof (cases "fs_mkdir env (modelsDir env) s")
    case None
    with False assms show ?thesis
      by (simp add: getModelConfigs_def initializeModelDirectory_def)
  next
    case (Some s1)
    then have i1: "cacheIndex s1 = cacheIndex s" by (rule fs_mkdir_cacheIndex)
    show ?thesis
    proof (cases "fs_mkdir env (cacheDir env) s1")
      case None
      with False Some assms i1 show ?thesis
        by (simp add: getModelConfigs_def initializeModelDirectory_def initializeCacheDirectory_def)
    next
      case s2: (Some s2)
      with False Some show ?thesis
        by (simp add: getModelConfigs_def initializeModelDirectory_def initializeCacheDirectory_def
            distinct_loadCacheIndex)
    qed
  qed
qed

lemma distinct_ensureModelAvailable:
  assumes "distinct (map fst (cacheIndex s))"
  shows "distinct (map fst (cacheIndex (snd (ensureModelAvailable env t s))))"
proof -
  obtain r s1 where g: "getModelConfigs env s = (r, s1)"
    by (cases "getModelConfigs env s")
  have d1: "distinct (map fst (cacheIndex s1))"
    using distinct_getModelConfigs [OF assms, of env] by (simp add: g)
  show ?thesis
  proof (cases r)
    case (Inl e)
    with g d1 show ?thesis by (simp add: ensureModelAvailable_def)
  next
    case (Inr configs)
    show ?thesis
    proof (cases "find (\<lambda>config. type_cfg config = t) configs")
      case None
      with g Inr d1 show ?thesis by (simp add: ensureModelAvailable_def)
    next
      case (Some cfg)
      obtain c s2 where l: "getModelFromCache env (name cfg) s1 = (c, s2)"
        by (cases "getModelFromCache env (name cfg) s1")
      have d2: "distinct (map fst (cacheIndex s2))"
        using distinct_getModelFromCache [OF d1, of env "name cfg"] by (simp add: l)
      obtain v s3 where vc: "verifyModelChecksum (localPath cfg) (checksum cfg) s2 = (v, s3)"
        by (cases "verifyModelChecksum (localPath cfg) (checksum cfg) s2")
      then have "cacheIndex s3 = cacheIndex s2"
        by (auto simp: verifyModelChecksum_def split: option.splits)
      with d2 have d3: "distinct (map fst (cacheIndex s3))" by simp
      show ?thesis
        using g Inr Some l vc d2 d3
        by (simp add: ensureModelAvailable_def distinct_cacheExisting distinct_attemptDownload)
    qed
  qed
qed
section \<open>The eviction sweep\<close>

text \<open>
  Claim C1, as amended. Let the index hold distinct names, let every cached file be
  there, be deletable and belong to one entry only, and let the sizes be non-negative
  and add up to at most 2^53 - 1 bytes, so that the running total of the sweep is the
  exact one. Then the sweep that follows an insertion goes through the entries in
  ascending order of \<open>lastUsed\<close> and evicts a prefix of that order, which is exactly
  what the policy of the specification evicts: it removes the oldest remaining entry,
  deletes its file and subtracts its size for as long as the total is over 10 GiB and an
  entry is left; every evicted entry is at least as old as every entry kept, no other
  file is touched, and the sweep ends with a total of at most 10 GiB or with an empty
  index. With four entries of 5 GiB each, which is the index after a fourth 5 GiB model
  was inserted next to three, exactly the first two entries of the timestamp order are
  evicted and the total left is at most 10 GiB.
\<close>

theorem manageCacheSize_lru:
  assumes "distinct (map fst (cacheIndex s))"
    and "\<forall>x\<in>set (cacheIndex s). can_unlink env (files s) (path (snd x))"
    and "distinct (map (\<lambda>x. path (snd x)) (cacheIndex s))"
    and "\<forall>x\<in>set (cacheIndex s). 0 \<le> size_bytes (snd x)"
    and "exactSize (cacheIndex s) \<le> MAX_SAFE_INTEGER"
  shows "sorted (map (\<lambda>x. lastUsed (snd x)) (sortedEntries (cacheIndex s)))
     \<and> set (sortedEntries (cacheIndex s)) = set (cacheIndex s)
     \<and> totalSize (sortedEntries (cacheIndex s)) = exactSize (cacheIndex s)
     \<and> lru_evicted (cacheIndex s) =
          take (length (lru_evicted (cacheIndex s))) (sortedEntries (cacheIndex s))
     \<and> cacheIndex (manageCacheSize env s) =
          [x \<leftarrow> cacheIndex s. x \<notin> set (lru_evicted (cacheIndex s))]
     \<and> (\<forall>x\<in>set (lru_evicted (cacheIndex s)). files (manageCacheSize env s) (path (snd x)) = None)
     \<and> (\<forall>p. p \<notin> (\<lambda>x. path (snd x)) ` set (lru_evicted (cacheIndex s)) \<longrightarrow>
           files (manageCacheSize env s) p = files s p)
     \<and> exactSize (cacheIndex (manageCacheSize env s)) =
          exactSize (cacheIndex s) - exactSize (lru_evicted (cacheIndex s))
     \<and> (\<forall>j<length (lru_evicted (cacheIndex s)).
           maxCacheSize < exactSize (cacheIndex s) - exactSize (take j (sortedEntries (cacheIndex s))))
     \<and> (exactSize (cacheIndex (manageCacheSize env s)) \<le> maxCacheSize
          \<or> cacheIndex (manageCacheSize env s) = [])
     \<and> (\<forall>x\<in>set (lru_evicted (cacheIndex s)). \<forall>y\<in>set (cacheIndex (manageCacheSize env s)).
           lastUsed (snd x) \<le> lastUsed (snd y))
     \<and> (length (cacheIndex s) = 4 \<and> (\<forall>x\<in>set (cacheIndex s). size_bytes (snd x) = 5 * GiB) \<longrightarrow>
           lru_evicted (cacheIndex s) = take 2 (sortedEntries (cacheIndex s))
           \<and> exactSize (cacheIndex (manageCacheSize env s)) \<le> maxCacheSize)"
proof -
  let ?idx = "cacheIndex s"
  let ?L = "sortedEntries ?idx"
  let ?T = "exactSize ?idx"
  let ?n = "lru_count ?T ?L"
  let ?ev = "lru_evicted ?idx"
  let ?s' = "manageCacheSize env s"
  have nnL: "\<forall>x\<in>set ?L. 0 \<le> size_bytes (snd x)"
    using assms(4) by (simp add: set_sortedEntries)
  have eL: "exactSize ?L = ?T" by (rule exactSize_sortedEntries)
  have tL: "totalSize ?L = ?T"
    using nnL assms(5) by (simp add: totalSize_exact eL)
  have ev: "?ev = take ?n ?L" by (simp add: lru_evicted_def tL)
  have di: "distinct ?idx" using assms(1) by (simp add: distinct_map)
  have dL: "distinct ?L" using di by (simp add: sortedEntries_def)
  have idx': "cacheIndex ?s' = [x \<leftarrow> ?idx. x \<notin> set ?ev]"
    using assms(1-3) by (rule manageCacheSize_lru_aux(1))
  have fl: "\<forall>x\<in>set ?ev. files ?s' (path (snd x)) = None"
    using assms(1-3) by (rule manageCacheSize_lru_aux(2))
  have fr: "\<forall>p. p \<notin> (\<lambda>x. path (snd x)) ` set ?ev \<longrightarrow> files ?s' p = files s p"
    using assms(1-3) by (rule manageCacheSize_lru_aux(3))
  have tot: "exactSize (cacheIndex ?s') = ?T - exactSize ?ev"
    unfolding idx' ev using di dL set_sortedEntries by (rule exactSize_filter_take)
  have len: "length ?ev = ?n"
    using lru_count_le [of ?T ?L] by (simp add: ev)
  have pre: "?ev = take (length ?ev) ?L"
    unfolding len by (rule ev)
  have over: "\<forall>j<length ?ev. maxCacheSize < ?T - exactSize (take j ?L)"
    unfolding len using nnL assms(5) by (auto intro!: lru_count_over simp: eL)
  have stop: "exactSize (cacheIndex ?s') \<le> maxCacheSize \<or> cacheIndex ?s' = []"
  proof (cases "?n < length ?L")
    case True
    with nnL assms(5) have "?T - exactSize (take ?n ?L) \<le> maxCacheSize"
      by (intro lru_count_stop) (simp_all add: eL)
    then show ?thesis by (simp add: tot ev)
  next
    case False
    then have "?ev = ?L" by (simp add: ev)
    then have "cacheIndex ?s' = []" by (simp add: idx' set_sortedEntries)
    then show ?thesis by simp
  qed
  have older: "\<forall>x\<in>set ?ev. \<forall>y\<in>set (cacheIndex ?s'). lastUsed (snd x) \<le> lastUsed (snd y)"
    unfolding idx' using di by (rule lru_evicted_older)
  have four: "?ev = take 2 ?L \<and> exactSize (cacheIndex ?s') \<le> maxCacheSize"
    if l4: "length ?idx = 4" and sz: "\<forall>x\<in>set ?idx. size_bytes (snd x) = 5 * GiB"
  proof -
    from l4 have "length ?L = 4" by (simp add: length_sortedEntries)
    then obtain a b c d where L: "?L = [a, b, c, d]"
      by (auto simp: length_Suc_conv numeral_eq_Suc)
    from sz have "\<forall>x\<in>set ?L. size_bytes (snd x) = 5 * GiB" by (simp add: set_sortedEntries)
    then have szs: "size_bytes (snd a) = 5 * GiB" "size_bytes (snd b) = 5 * GiB"
      "size_bytes (snd c) = 5 * GiB" "size_bytes (snd d) = 5 * GiB"
      by (simp_all add: L)
    have "?T = exactSize ?L" by (simp add: eL)
    also have "\<dots> = 20 * GiB" by (simp add: L szs)
    finally have t: "?T = 20 * GiB" .
    have "lru_count (20 * GiB) [a, b, c, d] = 2"
      by (simp add: szs GiB_def maxCacheSize_def number_defs)
    then have n2: "?n = 2" by (simp only: t L)
    have e2: "?ev = take 2 ?L" by (simp only: ev n2)
    have "exactSize (take 2 [a, b, c, d]) = 10 * GiB"
      by (simp add: szs)
    then have "exactSize ?ev = 10 * GiB" by (simp only: e2 L)
    with e2 show ?thesis
      by (simp add: tot t GiB_def maxCacheSize_def)
  qed
  show ?thesis
    using sorted_sortedEntries set_sortedEntries tL pre idx' fl fr tot over stop older four
    by blast
qed

text \<open>
  Witness for C1: in \<open>s_four\<close> the timestamp order is \<open>b, c, a, d\<close>; the sweep evicts \<open>b\<close>
  and \<open>c\<close> and keeps \<open>a\<close> and \<open>d\<close>. The same index results when \<open>cacheModel\<close> inserts
  \<open>d\<close> into \<open>s_three\<close>.
\<close>

theorem manageCacheSize_lru_witness:
  "distinct (map fst (cacheIndex s_four))
   \<and> list_all (\<lambda>x. can_unlink env0 (files s_four) (path (snd x))) (cacheIndex s_four)
   \<and> distinct (map (\<lambda>x. path (snd x)) (cacheIndex s_four))
   \<and> list_all (\<lambda>x. 0 \<le> size_bytes (snd x)) (cacheIndex s_four)
   \<and> exactSize (cacheIndex s_four) \<le> MAX_SAFE_INTEGER
   \<and> length (cacheIndex s_four) = 4
   \<and> list_all (\<lambda>x. size_bytes (snd x) = 5 * GiB) (cacheIndex s_four)
   \<and> map fst (sortedEntries (cacheIndex s_four)) = [''b'', ''c'', ''a'', ''d'']
   \<and> lru_evicted (cacheIndex s_four) = take 2 (sortedEntries (cacheIndex s_four))
   \<and> cacheIndex (manageCacheSize env0 s_four) =
        [x \<leftarrow> cacheIndex s_four. x \<notin> set (lru_evicted (cacheIndex s_four))]
   \<and> map fst (cacheIndex (manageCacheSize env0 s_four)) = [''a'', ''d'']
   \<and> exactSize (cacheIndex (manageCacheSize env0 s_four)) \<le> maxCacheSize
   \<and> map fst (cacheIndex (snd (cacheModel env0 ''d'' ''/m/d.bin'' ''1'' s_three))) = [''a'', ''d'']"
proof -
  have h1: "distinct (map fst (cacheIndex s_four))"
    by (simp add: s_four_def example_defs)
  have h2: "\<forall>x\<in>set (cacheIndex s_four). can_unlink env0 (files s_four) (path (snd x))"
    by (simp add: s_four_def example_defs can_unlink_def)
  have h3: "distinct (map (\<lambda>x. path (snd x)) (cacheIndex s_four))"
    by (simp add: s_four_def example_defs)
  have h4: "\<forall>x\<in>set (cacheIndex s_four). 0 \<le> size_bytes (snd x)"
    by (simp add: s_four_def example_defs)
  have h5: "exactSize (cacheIndex s_four) \<le> MAX_SAFE_INTEGER"
    by (simp add: s_four_def example_defs MAX_SAFE_INTEGER_def)
  have h6: "length (cacheIndex s_four) = 4 \<and> (\<forall>x\<in>set (cacheIndex s_four). size_bytes (snd x) = 5 * GiB)"
    by (simp add: s_four_def example_defs)
  have o: "map fst (sortedEntries (cacheIndex s_four)) = [''b'', ''c'', ''a'', ''d'']"
    by (simp add: s_four_def example_defs sortedEntries_def)
  have r: "map fst (cacheIndex (manageCacheSize env0 s_four)) = [''a'', ''d'']"
    by (simp add: s_four_def example_defs cache_defs)
  have c: "map fst (cacheIndex (snd (cacheModel env0 ''d'' ''/m/d.bin'' ''1'' s_three))) = [''a'', ''d'']"
    by (simp add: s_three_def example_defs cache_defs)
  from manageCacheSize_lru [OF h1 h2 h3 h4 h5] h1 h2 h3 h4 h5 h6 o r c show ?thesis
    unfolding list_all_iff by blast
qed

text \<open>
  Counterexamples to C1 as stated. In \<open>s_three_gone\<close> the file of the oldest entry \<open>b\<close>
  is gone. Inserting \<open>d\<close> succeeds, and the sweep then keeps \<open>b\<close>, whose \<open>unlink\<close> is
  rejected, and evicts \<open>c\<close> and \<open>a\<close> instead: the entries evicted are not the two with the
  smallest \<open>lastUsed\<close>, and the oldest remaining entry was not removed. In
  \<open>s_round_insert\<close> every file can be deleted, and inserting the model \<open>r\<close> of 1 byte
  makes a total of 2^53 + 10 GiB + 1 bytes, which the sweep holds as 2^53 + 10 GiB:
  after the eviction of \<open>p\<close> its running total is 10 GiB and it stops, with \<open>q\<close> and \<open>r\<close>
  left in the index, 1 byte over the ceiling.
\<close>

theorem manageCacheSize_lru_counterexample:
  "map fst (sortedEntries (cacheIndex s_three_gone)) = [''b'', ''c'', ''a'']
   \<and> fst (cacheModel env0 ''d'' ''/m/d.bin'' ''1'' s_three_gone) = Inr ''/app/model-cache/d-1-d.bin''
   \<and> map fst (cacheIndex (snd (cacheModel env0 ''d'' ''/m/d.bin'' ''1'' s_three_gone))) = [''b'', ''d'']
   \<and> fst (cacheModel env0 ''r'' ''/m/r.bin'' ''1'' s_round_insert) = Inr ''/app/model-cache/r-1-r.bin''
   \<and> map fst (cacheIndex (snd (cacheModel env0 ''r'' ''/m/r.bin'' ''1'' s_round_insert))) = [''q'', ''r'']
   \<and> list_all (\<lambda>x. can_unlink env0 (files (snd (cacheModel env0 ''r'' ''/m/r.bin'' ''1'' s_round_insert)))
                   (path (snd x)))
        (cacheIndex (snd (cacheModel env0 ''r'' ''/m/r.bin'' ''1'' s_round_insert)))
   \<and> exactSize (cacheIndex (snd (cacheModel env0 ''r'' ''/m/r.bin'' ''1'' s_round_insert))) =
        10 * GiB + 1
   \<and> maxCacheSize < exactSize (cacheIndex (snd (cacheModel env0 ''r'' ''/m/r.bin'' ''1'' s_round_insert)))"
proof -
  let ?r = "cacheModel env0 ''r'' ''/m/r.bin'' ''1'' s_round_insert"
  have a: "map fst (sortedEntries (cacheIndex s_three_gone)) = [''b'', ''c'', ''a'']"
    by (simp add: s_three_gone_def example_defs sortedEntries_def)
  have b: "fst (cacheModel env0 ''d'' ''/m/d.bin'' ''1'' s_three_gone) = Inr ''/app/model-cache/d-1-d.bin''"
    "map fst (cacheIndex (snd (cacheModel env0 ''d'' ''/m/d.bin'' ''1'' s_three_gone))) = [''b'', ''d'']"
    by (simp_all add: s_three_gone_def example_defs cache_defs)
  have c: "?r =
      (Inr ''/app/model-cache/r-1-r.bin'',
       s_round_insert\<lparr>cacheIndex :=
           [(''q'', mk_entry ''/c/q'' 2 (10 * GiB)),
            (''r'', mk_entry ''/app/model-cache/r-1-r.bin'' 1000 1)],
         files := [''/c/q'' \<mapsto> File (10 * GiB) ''dq'', ''/m/r.bin'' \<mapsto> File 1 ''dr'',
                   ''/app/model-cache/r-1-r.bin'' \<mapsto> File 1 ''dr''],
         indexFile := Some [(''q'', mk_entry ''/c/q'' 2 (10 * GiB)),
            (''r'', mk_entry ''/app/model-cache/r-1-r.bin'' 1000 1)],
         ticks := 1\<rparr>)"
    by (simp add: s_round_insert_def example_defs cache_defs fun_eq_iff)
  have r: "fst ?r = Inr ''/app/model-cache/r-1-r.bin''"
    "map fst (cacheIndex (snd ?r)) = [''q'', ''r'']"
    "list_all (\<lambda>x. can_unlink env0 (files (snd ?r)) (path (snd x))) (cacheIndex (snd ?r))"
    "exactSize (cacheIndex (snd ?r)) = 10 * GiB + 1"
    "maxCacheSize < exactSize (cacheIndex (snd ?r))"
    unfolding c by (simp_all add: example_defs can_unlink_def maxCacheSize_def)
  from a b r show ?thesis by blast
qed

text \<open>
  Claim C2, as amended. For every index with distinct names (every JavaScript \<open>Map\<close>)
  whose sizes are non-negative and add up to at most 2^53 - 1 bytes, running
  \<open>manageCacheSize\<close> a second time, with nothing but the sweep touching the files in
  between, changes neither the index, nor the files, nor the persisted index; and when
  the total is at or under the ceiling the first run already changes no entry and no
  file.
\<close>

theorem manageCacheSize_idempotent:
  assumes "distinct (map fst (cacheIndex s))"
    and "\<forall>x\<in>set (cacheIndex s). 0 \<le> size_bytes (snd x)"
    and "exactSize (cacheIndex s) \<le> MAX_SAFE_INTEGER"
  shows "cacheIndex (manageCacheSize env (manageCacheSize env s)) = cacheIndex (manageCacheSize env s)
     \<and> files (manageCacheSize env (manageCacheSize env s)) = files (manageCacheSize env s)
     \<and> indexFile (manageCacheSize env (manageCacheSize env s)) = indexFile (manageCacheSize env s)
     \<and> (exactSize (cacheIndex s) \<le> maxCacheSize \<longrightarrow>
          cacheIndex (manageCacheSize env s) = cacheIndex s \<and> files (manageCacheSize env s) = files s)"
proof -
  have t: "totalSize (sortedEntries (cacheIndex s)) = exactSize (cacheIndex s)"
    using assms(2,3)
    by (subst totalSize_exact) (simp_all add: exactSize_sortedEntries set_sortedEntries)
  have "sweep env (sortedEntries (cacheIndex s)) (totalSize (sortedEntries (cacheIndex s))) s = s"
    if "exactSize (cacheIndex s) \<le> maxCacheSize"
    using that by (intro sweep_within) (simp add: t)
  then have "exactSize (cacheIndex s) \<le> maxCacheSize \<longrightarrow>
          cacheIndex (manageCacheSize env s) = cacheIndex s \<and> files (manageCacheSize env s) = files s"
    by (simp add: manageCacheSize_def)
  with manageCacheSize_twice [OF assms] show ?thesis by blast
qed

text \<open>
  Witness for C2: \<open>s_three_gone\<close> is over the ceiling and one of its files cannot be
  deleted, so the first run evicts \<open>c\<close> and keeps \<open>a\<close> and \<open>b\<close>, and the second run changes
  nothing; \<open>s_two\<close> is at the ceiling and is left as it is.
\<close>

theorem manageCacheSize_idempotent_witness:
  "distinct (map fst (cacheIndex s_three_gone))
   \<and> list_all (\<lambda>x. 0 \<le> size_bytes (snd x)) (cacheIndex s_three_gone)
   \<and> exactSize (cacheIndex s_three_gone) \<le> MAX_SAFE_INTEGER
   \<and> map fst (cacheIndex (manageCacheSize env0 s_three_gone)) = [''a'', ''b'']
   \<and> cacheIndex (manageCacheSize env0 (manageCacheSize env0 s_three_gone)) =
       cacheIndex (manageCacheSize env0 s_three_gone)
   \<and> files (manageCacheSize env0 (manageCacheSize env0 s_three_gone)) =
       files (manageCacheSize env0 s_three_gone)
   \<and> distinct (map fst (cacheIndex s_two))
   \<and> list_all (\<lambda>x. 0 \<le> size_bytes (snd x)) (cacheIndex s_two)
   \<and> exactSize (cacheIndex s_two) \<le> MAX_SAFE_INTEGER
   \<and> exactSize (cacheIndex s_two) \<le> maxCacheSize
   \<and> cacheIndex (manageCacheSize env0 s_two) = cacheIndex s_two
   \<and> files (manageCacheSize env0 s_two) = files s_two"
proof -
  have h1: "distinct (map fst (cacheIndex s_three_gone))"
    "\<forall>x\<in>set (cacheIndex s_three_gone). 0 \<le> size_bytes (snd x)"
    "exactSize (cacheIndex s_three_gone) \<le> MAX_SAFE_INTEGER"
    by (simp_all add: s_three_gone_def example_defs MAX_SAFE_INTEGER_def)
  have r: "map fst (cacheIndex (manageCacheSize env0 s_three_gone)) = [''a'', ''b'']"
    by (simp add: s_three_gone_def example_defs cache_defs)
  have h2: "distinct (map fst (cacheIndex s_two))"
    "\<forall>x\<in>set (cacheIndex s_two). 0 \<le> size_bytes (snd x)"
    "exactSize (cacheIndex s_two) \<le> MAX_SAFE_INTEGER"
    by (simp_all add: s_two_def example_defs MAX_SAFE_INTEGER_def)
  have h3: "exactSize (cacheIndex s_two) \<le> maxCacheSize"
    by (simp add: s_two_def example_defs maxCacheSize_def)
  from manageCacheSize_idempotent [OF h1, of env0] manageCacheSize_idempotent [OF h2, of env0]
    h1 h2 h3 r
  show ?thesis unfolding list_all_iff by blast
qed

text \<open>
  Counterexample to C2 as stated: the three entries of \<open>s_round\<close> add up to
  2^53 + 10 GiB + 1 bytes, which the sweep holds as 2^53 + 10 GiB. The first run evicts
  \<open>p\<close> and stops at a running total of 10 GiB, leaving \<open>q\<close> and \<open>r\<close>, 1 byte over the
  ceiling; the second run adds up 10 GiB + 1 and evicts \<open>q\<close>.
\<close>

theorem manageCacheSize_idempotent_counterexample:
  "distinct (map fst (cacheIndex s_round))
   \<and> MAX_SAFE_INTEGER < exactSize (cacheIndex s_round)
   \<and> totalSize (sortedEntries (cacheIndex s_round)) = exactSize (cacheIndex s_round) - 1
   \<and> map fst (cacheIndex (manageCacheSize env0 s_round)) = [''q'', ''r'']
   \<and> map fst (cacheIndex (manageCacheSize env0 (manageCacheSize env0 s_round))) = [''r'']
   \<and> cacheIndex (manageCacheSize env0 (manageCacheSize env0 s_round)) \<noteq>
       cacheIndex (manageCacheSize env0 s_round)"
proof -
  have d: "distinct (map fst (cacheIndex s_round))"
    "MAX_SAFE_INTEGER < exactSize (cacheIndex s_round)"
    by (simp_all add: s_round_def example_defs MAX_SAFE_INTEGER_def)
  have t: "totalSize (sortedEntries (cacheIndex s_round)) = exactSize (cacheIndex s_round) - 1"
    by (simp add: s_round_def example_defs sortedEntries_def totalSize_def number_defs)
  have m: "manageCacheSize env0 s_round =
      s_round\<lparr>cacheIndex := [(''q'', mk_entry ''/c/q'' 2 (10 * GiB)), (''r'', mk_entry ''/c/r'' 3 1)],
        files := [''/c/q'' \<mapsto> File (10 * GiB) ''dq'', ''/c/r'' \<mapsto> File 1 ''dr''],
        indexFile := Some [(''q'', mk_entry ''/c/q'' 2 (10 * GiB)), (''r'', mk_entry ''/c/r'' 3 1)]\<rparr>"
    by (simp add: s_round_def example_defs cache_defs fun_eq_iff)
  have r1: "map fst (cacheIndex (manageCacheSize env0 s_round)) = [''q'', ''r'']"
    unfolding m by simp
  have r2: "map fst (cacheIndex (manageCacheSize env0 (manageCacheSize env0 s_round))) = [''r'']"
    unfolding m by (simp add: s_round_def example_defs cache_defs)
  from r1 r2 have "cacheIndex (manageCacheSize env0 (manageCacheSize env0 s_round)) \<noteq>
       cacheIndex (manageCacheSize env0 s_round)"
    by auto
  with d t r1 r2 show ?thesis by blast
qed

text \<open>
  Claim C3, as amended. When \<open>unlink\<close> of the file of the entry that the sweep selected
  is rejected, the sweep logs the warning, leaves the entry in the index, subtracts
  nothing from the running total and goes on with the next entry; and an entry of the
  index whose file cannot be deleted is still in the index, with its file untouched,
  after \<open>manageCacheSize\<close>.
\<close>

theorem sweep_unlink_failure:
  assumes "\<not> can_unlink env (files s) (path e)"
  shows "(maxCacheSize < T \<longrightarrow>
            sweep env ((k, e) # es) T s =
              sweep env es T (logger Warn ''Failed to remove old cache entry'' s))
     \<and> (distinct (map fst (cacheIndex s)) \<and> (k, e) \<in> set (cacheIndex s) \<longrightarrow>
            (k, e) \<in> set (cacheIndex (manageCacheSize env s))
            \<and> files (manageCacheSize env s) (path e) = files s (path e))"
  using assms sweep_step_failure [of T env s e k es] manageCacheSize_keeps_stuck [of s k e env]
  by blast

text \<open>
  Witness for C3: in \<open>s_locked\<close> under \<open>env_locked\<close> the sweep reaches \<open>old\<close> first, logs
  and goes on with \<open>new\<close>; \<open>old\<close> and its file are still there afterwards.
\<close>

theorem sweep_unlink_failure_witness:
  "\<not> can_unlink env_locked (files s_locked) ''/c/old''
   \<and> maxCacheSize < totalSize (cacheIndex s_locked)
   \<and> distinct (map fst (cacheIndex s_locked))
   \<and> sortedEntries (cacheIndex s_locked) = cacheIndex s_locked
   \<and> sweep env_locked (cacheIndex s_locked) (totalSize (cacheIndex s_locked)) s_locked =
       sweep env_locked [(''new'', mk_entry ''/c/new'' 2 (6 * GiB))] (totalSize (cacheIndex s_locked))
         (logger Warn ''Failed to remove old cache entry'' s_locked)
   \<and> (''old'', mk_entry ''/c/old'' 1 (6 * GiB)) \<in> set (cacheIndex (manageCacheSize env_locked s_locked))
   \<and> files (manageCacheSize env_locked s_locked) ''/c/old'' = Some (File (6 * GiB) ''do'')"
proof -
  have h: "\<not> can_unlink env_locked (files s_locked) (path (mk_entry ''/c/old'' 1 (6 * GiB)))"
    by (simp add: can_unlink_def env_locked_def s_locked_def example_defs)
  have t: "maxCacheSize < totalSize (cacheIndex s_locked)"
    by (simp add: s_locked_def example_defs totalSize_def maxCacheSize_def number_defs)
  have d: "distinct (map fst (cacheIndex s_locked))"
    by (simp add: s_locked_def example_defs)
  have m: "(''old'', mk_entry ''/c/old'' 1 (6 * GiB)) \<in> set (cacheIndex s_locked)"
    by (simp add: s_locked_def example_defs)
  have so: "sortedEntries (cacheIndex s_locked) = cacheIndex s_locked"
    by (simp add: s_locked_def example_defs sortedEntries_def)
  have i: "cacheIndex s_locked =
      (''old'', mk_entry ''/c/old'' 1 (6 * GiB)) # [(''new'', mk_entry ''/c/new'' 2 (6 * GiB))]"
    by (simp add: s_locked_def example_defs)
  have f: "files s_locked ''/c/old'' = Some (File (6 * GiB) ''do'')"
    by (simp add: s_locked_def example_defs)
  have p: "path (mk_entry ''/c/old'' 1 (6 * GiB)) = ''/c/old''"
    by (simp add: mk_entry_def)
  from sweep_unlink_failure [OF h, of "totalSize (cacheIndex s_locked)" "''old''"
      "[(''new'', mk_entry ''/c/new'' 2 (6 * GiB))]"] h t d m so f
  show ?thesis
    unfolding i [symmetric] p by simp
qed

text \<open>
  Counterexample to C3 as stated: the sweep selects \<open>old\<close>, the deletion of its file is
  refused, the failure is logged, and the index still holds \<open>old\<close> when the sweep is
  over: only \<open>new\<close> was removed.
\<close>

theorem sweep_unlink_failure_counterexample:
  "map fst (sortedEntries (cacheIndex s_locked)) = [''old'', ''new'']
   \<and> map fst (cacheIndex (manageCacheSize env_locked s_locked)) = [''old'']
   \<and> totalSize (cacheIndex (manageCacheSize env_locked s_locked)) = 6 * GiB
   \<and> logged (manageCacheSize env_locked s_locked) = [(Warn, ''Failed to remove old cache entry'')]"
  by (simp add: s_locked_def env_locked_def example_defs cache_defs)

subsection \<open>Ties and oversized models\<close>

text \<open>
  Claim C9, as amended. Entries with equal \<open>lastUsed\<close> are swept in the order in which
  the index holds them, which is the order in which their names were first inserted:
  the sort is stable and compares nothing but the timestamp. So among the entries of
  one timestamp, those evicted are the first ones in index order; and the sweep evicts
  exactly the entries of the policy when all cached files can be deleted.
\<close>

theorem sortedEntries_stable:
  "[x \<leftarrow> sortedEntries (cacheIndex s). lastUsed (snd x) = t] =
      [x \<leftarrow> cacheIndex s. lastUsed (snd x) = t]
   \<and> [x \<leftarrow> lru_evicted (cacheIndex s). lastUsed (snd x) = t] =
      take (length [x \<leftarrow> lru_evicted (cacheIndex s). lastUsed (snd x) = t])
        [x \<leftarrow> cacheIndex s. lastUsed (snd x) = t]
   \<and> (distinct (map fst (cacheIndex s))
        \<and> (\<forall>x\<in>set (cacheIndex s). can_unlink env (files s) (path (snd x)))
        \<and> distinct (map (\<lambda>x. path (snd x)) (cacheIndex s)) \<longrightarrow>
      cacheIndex (manageCacheSize env s) =
        [x \<leftarrow> cacheIndex s. x \<notin> set (lru_evicted (cacheIndex s))])"
proof -
  have "[x \<leftarrow> lru_evicted (cacheIndex s). lastUsed (snd x) = t] =
      take (length [x \<leftarrow> lru_evicted (cacheIndex s). lastUsed (snd x) = t])
        [x \<leftarrow> sortedEntries (cacheIndex s). lastUsed (snd x) = t]"
    unfolding lru_evicted_def by (rule filter_take_prefix)
  then show ?thesis
    using manageCacheSize_lru_aux(1) [of s env] by (simp add: sortedEntries_ties)
qed

text \<open>
  Witness for C9: in \<open>s_tie\<close> the sweep order is \<open>zeta, alpha\<close>, the order of the index,
  and \<open>zeta\<close> is the entry evicted.
\<close>

theorem sortedEntries_stable_witness:
  "distinct (map fst (cacheIndex s_tie))
   \<and> list_all (\<lambda>x. can_unlink env0 (files s_tie) (path (snd x))) (cacheIndex s_tie)
   \<and> distinct (map (\<lambda>x. path (snd x)) (cacheIndex s_tie))
   \<and> map fst [x \<leftarrow> sortedEntries (cacheIndex s_tie). lastUsed (snd x) = 5] = [''zeta'', ''alpha'']
   \<and> map fst (lru_evicted (cacheIndex s_tie)) = [''zeta'']
   \<and> cacheIndex (manageCacheSize env0 s_tie) =
        [x \<leftarrow> cacheIndex s_tie. x \<notin> set (lru_evicted (cacheIndex s_tie))]"
proof -
  have h1: "distinct (map fst (cacheIndex s_tie))"
    by (simp add: s_tie_def example_defs)
  have h2: "\<forall>x\<in>set (cacheIndex s_tie). can_unlink env0 (files s_tie) (path (snd x))"
    by (simp add: s_tie_def example_defs can_unlink_def)
  have h3: "distinct (map (\<lambda>x. path (snd x)) (cacheIndex s_tie))"
    by (simp add: s_tie_def example_defs)
  have o: "map fst [x \<leftarrow> cacheIndex s_tie. lastUsed (snd x) = 5] = [''zeta'', ''alpha'']"
    by (simp add: s_tie_def example_defs)
  have e: "map fst (lru_evicted (cacheIndex s_tie)) = [''zeta'']"
    by (simp add: s_tie_def example_defs lru_evicted_def sortedEntries_def totalSize_def
        maxCacheSize_def number_defs)
  from sortedEntries_stable [where s = s_tie and t = 5 and env = env0] h1 h2 h3 o e show ?thesis
    unfolding list_all_iff by simp
qed

text \<open>
  Counterexample to C9 as stated: \<open>zeta\<close> and \<open>alpha\<close> have the same timestamp and
  \<open>alpha\<close> is the smaller name, yet the sweep takes \<open>zeta\<close> first and evicts it,
  leaving \<open>alpha\<close>.
\<close>

theorem sortedEntries_stable_counterexample:
  "lastUsed (mk_entry ''/c/zeta'' 5 (6 * GiB)) = lastUsed (mk_entry ''/c/alpha'' 5 (6 * GiB))
   \<and> ''alpha'' < ''zeta''
   \<and> map fst (sortedEntries (cacheIndex s_tie)) = [''zeta'', ''alpha'']
   \<and> map fst (cacheIndex (manageCacheSize env0 s_tie)) = [''alpha'']"
  by (simp add: s_tie_def example_defs cache_defs)

text \<open>
  Claim C10, as amended. Let \<open>cacheModel\<close> insert a model file larger than the 10 GiB
  ceiling, into an index of distinct names and non-negative sizes that add up, with the
  model's, to at most 2^53 - 1 bytes, at a cached path that can be written and deleted
  and that no entry of another model uses. Then \<open>cacheModel\<close> returns the cached path
  as a success, although the sweep it triggered has deleted the cached file and removed
  the entry just created: the index has no entry for the model, and every entry it has
  is one it had before. The call fetches nothing and reads the clock once.
\<close>

theorem cacheModel_oversized:
  assumes "files s modelPath = Some (File sz d)" and "maxCacheSize < sz"
    and "cachedPathOf env modelName modelPath ver \<notin> unwritable env"
    and "files s (cachedPathOf env modelName modelPath ver) \<noteq> Some Dir"
    and "cachedPathOf env modelName modelPath ver \<notin> undeletable env"
    and "distinct (map fst (cacheIndex s))"
    and "\<forall>x\<in>set (cacheIndex s). 0 \<le> size_bytes (snd x)"
    and "\<forall>x\<in>set (cacheIndex s).
           fst x \<noteq> modelName \<longrightarrow> path (snd x) \<noteq> cachedPathOf env modelName modelPath ver"
    and "exactSize (cacheIndex s) + sz \<le> MAX_SAFE_INTEGER"
  shows "fst (cacheModel env modelName modelPath ver s) = Inr (cachedPathOf env modelName modelPath ver)
     \<and> files (snd (cacheModel env modelName modelPath ver s))
          (cachedPathOf env modelName modelPath ver) = None
     \<and> map_of (cacheIndex (snd (cacheModel env modelName modelPath ver s))) modelName = None
     \<and> set (cacheIndex (snd (cacheModel env modelName modelPath ver s))) \<subseteq> set (cacheIndex s)
     \<and> fetched (snd (cacheModel env modelName modelPath ver s)) = fetched s
     \<and> ticks (snd (cacheModel env modelName modelPath ver s)) = Suc (ticks s)"
proof -
  let ?cp = "cachedPathOf env modelName modelPath ver"
  let ?s1 = "s\<lparr>files := (files s)(?cp \<mapsto> File sz d)\<rparr>"
  let ?e = "\<lparr>path = ?cp, lastUsed = now env (ticks s), size_bytes = sz, version = ver\<rparr>"
  let ?idx = "AList.update modelName ?e (cacheIndex s)"
  let ?s3 = "?s1\<lparr>ticks := Suc (ticks s), cacheIndex := ?idx\<rparr>"
  let ?s4 = "saveCacheIndex env ?s3"
  let ?sw = "sweep env (sortedEntries ?idx) (totalSize (sortedEntries ?idx)) ?s4"
  have copy: "fs_copyFile env modelPath ?cp s = (True, ?s1)"
    using assms(1,3,4) by (simp add: fs_copyFile_def)
  have cm: "cacheModel env modelName modelPath ver s = (Inr ?cp, manageCacheSize env ?s4)"
    using assms(1) copy by (simp add: cacheModel_def fs_stat_def Date_now_def Let_def)
  have i4: "cacheIndex ?s4 = ?idx" and f4: "files ?s4 = (files s)(?cp \<mapsto> File sz d)"
    by simp_all
  have dk: "distinct (map fst ?idx)" using assms(6) by (rule distinct_update)
  have cases: "x = (modelName, ?e) \<or> (x \<in> set (cacheIndex s) \<and> fst x \<noteq> modelName)"
    if "x \<in> set ?idx" for x
    using assms(6) that by (rule set_update_cases)
  have sz0: "0 \<le> sz" using assms(2) by (simp add: maxCacheSize_def)
  have nn: "\<forall>x\<in>set ?idx. 0 \<le> size_bytes (snd x)"
  proof
    fix x assume "x \<in> set ?idx"
    then have "x = (modelName, ?e) \<or> (x \<in> set (cacheIndex s) \<and> fst x \<noteq> modelName)"
      by (rule cases)
    with assms(7) sz0 show "0 \<le> size_bytes (snd x)" by auto
  qed
  have le: "exactSize ?idx \<le> MAX_SAFE_INTEGER"
    using exactSize_update_le [OF assms(7), of modelName ?e] assms(9) by simp
  have tt: "totalSize (sortedEntries ?idx) = exactSize ?idx"
    using nn le by (subst totalSize_exact) (simp_all add: exactSize_sortedEntries set_sortedEntries)
  have sw: "files ?sw (path ?e) = None \<and> modelName \<notin> fst ` set (cacheIndex ?sw)"
  proof (rule sweep_oversized)
    show "(modelName, ?e) \<in> set (sortedEntries ?idx)"
      by (simp add: set_sortedEntries update_member)
    show "distinct (map fst (sortedEntries ?idx))"
      using dk by (simp add: sortedEntries_def distinct_map_sort_key)
    show "set (sortedEntries ?idx) \<subseteq> set (cacheIndex ?s4)"
      by (simp add: set_sortedEntries)
    show "distinct (map fst (cacheIndex ?s4))" using dk by simp
    show "totalSize (sortedEntries ?idx) = exactSize (cacheIndex ?s4)"
      by (simp add: tt)
    show "\<forall>x\<in>set (cacheIndex ?s4). 0 \<le> size_bytes (snd x)"
      using nn by simp
    show "maxCacheSize < size_bytes ?e" using assms(2) by simp
    show "can_unlink env (files ?s4) (path ?e)"
      using assms(5) by (simp add: can_unlink_def)
    show "\<forall>x\<in>set (sortedEntries ?idx). fst x \<noteq> modelName \<longrightarrow> path (snd x) \<noteq> path ?e"
    proof
      fix x assume "x \<in> set (sortedEntries ?idx)"
      then have "x \<in> set ?idx" by (simp add: set_sortedEntries)
      then have "x = (modelName, ?e) \<or> (x \<in> set (cacheIndex s) \<and> fst x \<noteq> modelName)"
        by (rule cases)
      with assms(8) show "fst x \<noteq> modelName \<longrightarrow> path (snd x) \<noteq> path ?e"
        by auto
    qed
    show "exactSize (cacheIndex ?s4) \<le> MAX_SAFE_INTEGER"
      using le by simp
  qed
  have m: "cacheIndex (manageCacheSize env ?s4) = cacheIndex ?sw"
    "files (manageCacheSize env ?s4) = files ?sw"
    by (simp_all add: manageCacheSize_def)
  have gone: "modelName \<notin> fst ` set (cacheIndex (manageCacheSize env ?s4))"
    using sw by (simp add: m)
  then have none: "map_of (cacheIndex (manageCacheSize env ?s4)) modelName = None"
    by (simp add: map_of_eq_None_iff)
  have nof: "files (manageCacheSize env ?s4) ?cp = None"
    using sw by (simp add: m)
  have sub: "set (cacheIndex (manageCacheSize env ?s4)) \<subseteq> set (cacheIndex s)"
  proof
    fix x assume x: "x \<in> set (cacheIndex (manageCacheSize env ?s4))"
    then have "x \<in> set (cacheIndex ?s4)"
      unfolding m using sweep_index_subset by blast
    then have "x = (modelName, ?e) \<or> (x \<in> set (cacheIndex s) \<and> fst x \<noteq> modelName)"
      using cases by simp
    moreover from x gone have "fst x \<noteq> modelName" by force
    ultimately show "x \<in> set (cacheIndex s)" by auto
  qed
  have fr: "fetched (manageCacheSize env ?s4) = fetched s"
    "ticks (manageCacheSize env ?s4) = Suc (ticks s)"
    by (simp_all add: manageCacheSize_def sweep_frame)
  show ?thesis
    unfolding cm using none nof sub fr by simp
qed

text \<open>
  Witness for C10: an 11 GiB model cached into \<open>s_huge\<close>; the sweep also evicts the older
  1 GiB entry on its way, and the index ends empty.
\<close>

theorem cacheModel_oversized_witness:
  "files s_huge ''/m/huge.bin'' = Some (File (11 * GiB) ''dh'')
   \<and> maxCacheSize < 11 * GiB
   \<and> cachedPathOf env0 ''huge'' ''/m/huge.bin'' ''1'' = ''/app/model-cache/huge-1-huge.bin''
   \<and> ''/app/model-cache/huge-1-huge.bin'' \<notin> unwritable env0
   \<and> files s_huge ''/app/model-cache/huge-1-huge.bin'' \<noteq> Some Dir
   \<and> ''/app/model-cache/huge-1-huge.bin'' \<notin> undeletable env0
   \<and> distinct (map fst (cacheIndex s_huge))
   \<and> list_all (\<lambda>x. 0 \<le> size_bytes (snd x)) (cacheIndex s_huge)
   \<and> list_all (\<lambda>x. path (snd x) \<noteq> ''/app/model-cache/huge-1-huge.bin'') (cacheIndex s_huge)
   \<and> exactSize (cacheIndex s_huge) + 11 * GiB \<le> MAX_SAFE_INTEGER
   \<and> fst (cacheModel env0 ''huge'' ''/m/huge.bin'' ''1'' s_huge) = Inr ''/app/model-cache/huge-1-huge.bin''
   \<and> files (snd (cacheModel env0 ''huge'' ''/m/huge.bin'' ''1'' s_huge))
        ''/app/model-cache/huge-1-huge.bin'' = None
   \<and> map_of (cacheIndex (snd (cacheModel env0 ''huge'' ''/m/huge.bin'' ''1'' s_huge))) ''huge'' = None
   \<and> map fst (cacheIndex (snd (cacheModel env0 ''huge'' ''/m/huge.bin'' ''1'' s_huge))) = []"
proof -
  have cp: "cachedPathOf env0 ''huge'' ''/m/huge.bin'' ''1'' = ''/app/model-cache/huge-1-huge.bin''"
    by (simp add: example_defs cache_defs)
  have h1: "files s_huge ''/m/huge.bin'' = Some (File (11 * GiB) ''dh'')"
    by (simp add: s_huge_def example_defs)
  have h2: "maxCacheSize < 11 * GiB" by (simp add: GiB_def maxCacheSize_def)
  have h3: "cachedPathOf env0 ''huge'' ''/m/huge.bin'' ''1'' \<notin> unwritable env0"
    by (simp add: env0_def)
  have h4: "files s_huge (cachedPathOf env0 ''huge'' ''/m/huge.bin'' ''1'') \<noteq> Some Dir"
    unfolding cp by (simp add: s_huge_def example_defs)
  have h5: "cachedPathOf env0 ''huge'' ''/m/huge.bin'' ''1'' \<notin> undeletable env0"
    by (simp add: env0_def)
  have h6: "distinct (map fst (cacheIndex s_huge))"
    by (simp add: s_huge_def example_defs)
  have h7: "\<forall>x\<in>set (cacheIndex s_huge). 0 \<le> size_bytes (snd x)"
    by (simp add: s_huge_def example_defs)
  have h8: "\<forall>x\<in>set (cacheIndex s_huge). fst x \<noteq> ''huge'' \<longrightarrow>
      path (snd x) \<noteq> cachedPathOf env0 ''huge'' ''/m/huge.bin'' ''1''"
    unfolding cp by (simp add: s_huge_def example_defs)
  have h8': "list_all (\<lambda>x. path (snd x) \<noteq> ''/app/model-cache/huge-1-huge.bin'') (cacheIndex s_huge)"
    by (simp add: s_huge_def example_defs)
  have h9: "exactSize (cacheIndex s_huge) + 11 * GiB \<le> MAX_SAFE_INTEGER"
    by (simp add: s_huge_def example_defs MAX_SAFE_INTEGER_def)
  have r: "map fst (cacheIndex (snd (cacheModel env0 ''huge'' ''/m/huge.bin'' ''1'' s_huge))) = []"
    by (simp add: s_huge_def example_defs cache_defs)
  from cacheModel_oversized [OF h1 h2 h3 h4 h5 h6 h7 h8 h9] h1 h2 h3 h4 h5 h6 h7 h8' h9 r
  show ?thesis
    unfolding cp list_all_iff by simp
qed

text \<open>
  Counterexamples to C10 as stated. In \<open>s_shared\<close> the entry of the model \<open>huge-1\<close>
  holds the cached path that \<open>cacheModel\<close> computes for the model \<open>huge\<close> in version
  \<open>1-0\<close>. The 11 GiB model file is copied over it, and the cached file can be deleted.
  The sweep evicts the older entry \<open>huge-1\<close> first and deletes the file with it; the
  \<open>unlink\<close> for the entry just created is then rejected, so that entry stays:
  \<open>cacheModel\<close> returns the path, the file is gone, and the index holds an entry for
  the model. In \<open>s_huge_round\<close> the model of 10 GiB + 1 bytes joins an entry of 2^53
  bytes; the sweep holds their total as 2^53 + 10 GiB, evicts the older entry, reads
  10 GiB and stops: the cached file and the entry of the model are both still there.
\<close>

theorem cacheModel_oversized_counterexample:
  "files s_shared ''/m/huge.bin'' = Some (File (11 * GiB) ''dh'')
   \<and> maxCacheSize < 11 * GiB
   \<and> cachedPathOf env0 ''huge'' ''/m/huge.bin'' ''1-0'' = ''/app/model-cache/huge-1-0-huge.bin''
   \<and> ''/app/model-cache/huge-1-0-huge.bin'' \<notin> undeletable env0
   \<and> fst (cacheModel env0 ''huge'' ''/m/huge.bin'' ''1-0'' s_shared) =
        Inr ''/app/model-cache/huge-1-0-huge.bin''
   \<and> files (snd (cacheModel env0 ''huge'' ''/m/huge.bin'' ''1-0'' s_shared))
        ''/app/model-cache/huge-1-0-huge.bin'' = None
   \<and> map fst (cacheIndex (snd (cacheModel env0 ''huge'' ''/m/huge.bin'' ''1-0'' s_shared))) = [''huge'']
   \<and> map_of (cacheIndex (snd (cacheModel env0 ''huge'' ''/m/huge.bin'' ''1-0'' s_shared))) ''huge'' =
        Some \<lparr>path = ''/app/model-cache/huge-1-0-huge.bin'', lastUsed = 1000,
              size_bytes = 11 * GiB, version = ''1-0''\<rparr>
   \<and> files s_huge_round ''/m/huge.bin'' = Some (File (10 * GiB + 1) ''dh'')
   \<and> maxCacheSize < 10 * GiB + 1
   \<and> fst (cacheModel env0 ''huge'' ''/m/huge.bin'' ''1'' s_huge_round) =
        Inr ''/app/model-cache/huge-1-huge.bin''
   \<and> files (snd (cacheModel env0 ''huge'' ''/m/huge.bin'' ''1'' s_huge_round))
        ''/app/model-cache/huge-1-huge.bin'' = Some (File (10 * GiB + 1) ''dh'')
   \<and> map fst (cacheIndex (snd (cacheModel env0 ''huge'' ''/m/huge.bin'' ''1'' s_huge_round))) = [''huge'']"
proof -
  have h: "files s_shared ''/m/huge.bin'' = Some (File (11 * GiB) ''dh'')"
    "maxCacheSize < 11 * GiB"
    "cachedPathOf env0 ''huge'' ''/m/huge.bin'' ''1-0'' = ''/app/model-cache/huge-1-0-huge.bin''"
    "''/app/model-cache/huge-1-0-huge.bin'' \<notin> undeletable env0"
    by (simp_all add: s_shared_def example_defs cache_defs)
  have r: "fst (cacheModel env0 ''huge'' ''/m/huge.bin'' ''1-0'' s_shared) =
        Inr ''/app/model-cache/huge-1-0-huge.bin''"
    "files (snd (cacheModel env0 ''huge'' ''/m/huge.bin'' ''1-0'' s_shared))
        ''/app/model-cache/huge-1-0-huge.bin'' = None"
    "cacheIndex (snd (cacheModel env0 ''huge'' ''/m/huge.bin'' ''1-0'' s_shared)) =
        [(''huge'', \<lparr>path = ''/app/model-cache/huge-1-0-huge.bin'', lastUsed = 1000,
              size_bytes = 11 * GiB, version = ''1-0''\<rparr>)]"
    by (simp_all add: s_shared_def example_defs cache_defs)
  have k: "files s_huge_round ''/m/huge.bin'' = Some (File (10 * GiB + 1) ''dh'')"
    "maxCacheSize < 10 * GiB + 1"
    by (simp_all add: s_huge_round_def example_defs maxCacheSize_def)
  have q: "fst (cacheModel env0 ''huge'' ''/m/huge.bin'' ''1'' s_huge_round) =
        Inr ''/app/model-cache/huge-1-huge.bin''"
    "files (snd (cacheModel env0 ''huge'' ''/m/huge.bin'' ''1'' s_huge_round))
        ''/app/model-cache/huge-1-huge.bin'' = Some (File (10 * GiB + 1) ''dh'')"
    "map fst (cacheIndex (snd (cacheModel env0 ''huge'' ''/m/huge.bin'' ''1'' s_huge_round))) = [''huge'']"
    by (simp_all add: s_huge_round_def example_defs cache_defs)
  from h r k q show ?thesis by simp
qed

section \<open>Lookup\<close>

text \<open>
  Claim C4, as amended. For every cache entry whose backing file exists and whose
  \<open>lastUsed\<close> lies the maximum age (30 days) or more before the clock reading, a lookup
  of the model name returns absent and leaves the index as it was, the entry included:
  nothing is purged. The total cached size plays no part.
\<close>

theorem getModelFromCache_expired:
  assumes "map_of (cacheIndex s) modelName = Some e"
    and "files s (path e) = Some nd"
    and "maxModelAge \<le> now env (ticks s) - lastUsed e"
  shows "fst (getModelFromCache env modelName s) = None
     \<and> cacheIndex (snd (getModelFromCache env modelName s)) = cacheIndex s
     \<and> map_of (cacheIndex (snd (getModelFromCache env modelName s))) modelName = Some e
     \<and> files (snd (getModelFromCache env modelName s)) = files s
     \<and> indexFile (snd (getModelFromCache env modelName s)) = indexFile s"
  using assms by (simp add: getModelFromCache_expired_aux)

text \<open>
  Witness for C4: the entry \<open>m\<close> of \<open>s_one\<close>, last used at 0 and looked up more than
  thirty days later, in a cache well under the ceiling.
\<close>

theorem getModelFromCache_expired_witness:
  "map_of (cacheIndex s_one) ''m'' = Some (mk_entry ''/c/m'' 0 GiB)
   \<and> files s_one (path (mk_entry ''/c/m'' 0 GiB)) = Some (File GiB ''dm'')
   \<and> maxModelAge \<le> now env_late (ticks s_one) - lastUsed (mk_entry ''/c/m'' 0 GiB)
   \<and> totalSize (cacheIndex s_one) \<le> maxCacheSize
   \<and> fst (getModelFromCache env_late ''m'' s_one) = None
   \<and> cacheIndex (snd (getModelFromCache env_late ''m'' s_one)) = cacheIndex s_one"
proof -
  have h1: "map_of (cacheIndex s_one) ''m'' = Some (mk_entry ''/c/m'' 0 GiB)"
    by (simp add: s_one_def example_defs)
  have h2: "files s_one (path (mk_entry ''/c/m'' 0 GiB)) = Some (File GiB ''dm'')"
    by (simp add: s_one_def example_defs)
  have h3: "maxModelAge \<le> now env_late (ticks s_one) - lastUsed (mk_entry ''/c/m'' 0 GiB)"
    by (simp add: s_one_def env_late_def example_defs)
  have h4: "totalSize (cacheIndex s_one) \<le> maxCacheSize"
    by (simp add: s_one_def example_defs totalSize_def maxCacheSize_def number_defs)
  from getModelFromCache_expired [OF h1 h2 h3] h1 h2 h3 h4 show ?thesis
    by simp
qed

text \<open>
  Counterexample to C4 as stated: the lookup of the expired entry \<open>m\<close> returns absent,
  and the index still maps \<open>m\<close> to the entry afterwards.
\<close>

theorem getModelFromCache_expired_counterexample:
  "now env_late 0 - 0 > maxModelAge
   \<and> files s_one ''/c/m'' = Some (File GiB ''dm'')
   \<and> fst (getModelFromCache env_late ''m'' s_one) = None
   \<and> map_of (cacheIndex (snd (getModelFromCache env_late ''m'' s_one))) ''m'' =
        Some (mk_entry ''/c/m'' 0 GiB)"
  by (simp add: s_one_def env_late_def example_defs cache_defs)




section \<open>Acquisition\<close>

text \<open>
  Claim C6, as amended. Let the catalog resolve the descriptor, the cache lookup miss,
  the model file be absent, and the clock not step back during the call. Then
  \<open>ensureModelAvailable\<close> issues the network fetch if and only if \<open>checkDiskSpace\<close>
  holds, that is if and only if the available space that \<open>getDiskSpace\<close> reports is
  greater than \<open>requiredDiskSpace\<close>; otherwise it returns absent without any fetch. For
  a descriptor of the catalog the reported space is greater than the required space, so
  that ``greater'' and ``at least'' agree and the fetch is issued.
\<close>

theorem ensureModelAvailable_space_check:
  assumes "getModelConfigs env s = (Inr configs, s1)"
    and "find (\<lambda>config. type_cfg config = modelType) configs = Some cfg"
    and "\<not> truthy (fst (getModelFromCache env (name cfg) s1))"
    and "files s1 (localPath cfg) = None"
    and "\<forall>n. now env n \<le> now env (Suc n)"
  shows "((fetched (snd (ensureModelAvailable env modelType s)) = fetched s @ [url cfg])
            = checkDiskSpace env (requiredDiskSpace cfg))
     \<and> (\<not> checkDiskSpace env (requiredDiskSpace cfg) \<longrightarrow>
           fst (ensureModelAvailable env modelType s) = None
           \<and> fetched (snd (ensureModelAvailable env modelType s)) = fetched s)
     \<and> (checkDiskSpace env (requiredDiskSpace cfg)
           = (requiredDiskSpace cfg < snd (getDiskSpace env)))
     \<and> (catalog_descriptor env cfg \<longrightarrow>
           ((fetched (snd (ensureModelAvailable env modelType s)) = fetched s @ [url cfg])
              = (requiredDiskSpace cfg \<le> snd (getDiskSpace env)))
           \<and> fetched (snd (ensureModelAvailable env modelType s)) = fetched s @ [url cfg])"
proof -
  let ?s2 = "snd (getModelFromCache env (name cfg) s1)"
  have e: "ensureModelAvailable env modelType s = attemptDownload env modelType cfg ?s2"
    using assms(1-4) by (rule ensureModelAvailable_absent)
  have f1: "fetched s1 = fetched s"
    using assms(1) by (rule getModelConfigs_fetched)
  then have f2: "fetched ?s2 = fetched s" by simp
  have main: "((fetched (snd (ensureModelAvailable env modelType s)) = fetched s @ [url cfg])
            = checkDiskSpace env (requiredDiskSpace cfg))
     \<and> (\<not> checkDiskSpace env (requiredDiskSpace cfg) \<longrightarrow>
           fst (ensureModelAvailable env modelType s) = None
           \<and> fetched (snd (ensureModelAvailable env modelType s)) = fetched s)"
  proof (cases "checkDiskSpace env (requiredDiskSpace cfg)")
    case False
    then have "downloadModel env cfg ?s2 =
        (None, logger Error ''Insufficient disk space for model download'' ?s2)"
      by (rule downloadModel_no_space)
    then have "fst (attemptDownload env modelType cfg ?s2) = None"
      and "fetched (snd (attemptDownload env modelType cfg ?s2)) = fetched s"
      using f1 by (simp_all add: attemptDownload_None)
    with False show ?thesis
      unfolding e by simp
  next
    case True
    have "\<not> truthy (fst (getModelFromCache env (name cfg) ?s2))"
      using assms(3,5) by (intro getModelFromCache_miss_again) simp_all
    with True have "fetched (snd (downloadModel env cfg ?s2)) = fetched ?s2 @ [url cfg]"
      by (rule downloadModel_fetches)
    with True show ?thesis
      unfolding e by (simp add: f1)
  qed
  have cat: "requiredDiskSpace cfg \<le> snd (getDiskSpace env)
      \<and> checkDiskSpace env (requiredDiskSpace cfg)"
    if "catalog_descriptor env cfg"
    using catalog_descriptor_space [OF that] by (simp add: checkDiskSpace_iff)
  from main cat checkDiskSpace_iff [of env "requiredDiskSpace cfg"] show ?thesis
    by blast
qed

text \<open>
  Witness for C6: a fresh process asks for the transcription model; the descriptor is
  the catalog's, the space suffices and the model's URL is fetched. The other branch
  needs a descriptor that the catalog of the code does not hold: in \<open>s_big\<close> the
  descriptor asks for the 500 GiB that \<open>getDiskSpace\<close> reports, and the answer is
  absent with nothing fetched.
\<close>

theorem ensureModelAvailable_space_check_witness:
  "fst (getModelConfigs env0 s_empty) = Inr (catalog env0)
   \<and> find (\<lambda>config. type_cfg config = Transcription) (catalog env0) = Some (hd (catalog env0))
   \<and> \<not> truthy (fst (getModelFromCache env0 (name (hd (catalog env0)))
                        (snd (getModelConfigs env0 s_empty))))
   \<and> files (snd (getModelConfigs env0 s_empty)) (localPath (hd (catalog env0))) = None
   \<and> (\<forall>n. now env0 n \<le> now env0 (Suc n))
   \<and> catalog_descriptor env0 (hd (catalog env0))
   \<and> checkDiskSpace env0 (requiredDiskSpace (hd (catalog env0)))
   \<and> requiredDiskSpace (hd (catalog env0)) \<le> snd (getDiskSpace env0)
   \<and> fetched (snd (ensureModelAvailable env0 Transcription s_empty)) =
        fetched s_empty @ [url (hd (catalog env0))]
   \<and> fetched (snd (ensureModelAvailable env0 Transcription s_empty)) =
        [''https://huggingface.co/ggerganov/whisper.cpp/resolve/main/ggml-small.bin'']
   \<and> getModelConfigs env0 s_big = (Inr [cfg_big], s_big)
   \<and> find (\<lambda>config. type_cfg config = Transcription) [cfg_big] = Some cfg_big
   \<and> \<not> truthy (fst (getModelFromCache env0 (name cfg_big) s_big))
   \<and> files s_big (localPath cfg_big) = None
   \<and> \<not> checkDiskSpace env0 (requiredDiskSpace cfg_big)
   \<and> fst (ensureModelAvailable env0 Transcription s_big) = None
   \<and> fetched (snd (ensureModelAvailable env0 Transcription s_big)) = fetched s_big"
proof -
  have g: "fst (getModelConfigs env0 s_empty) = Inr (catalog env0)"
    by (simp add: s_empty_def example_defs config_defs cache_defs)
  then have h1: "getModelConfigs env0 s_empty =
      (Inr (catalog env0), snd (getModelConfigs env0 s_empty))"
    by (metis prod.collapse)
  have h2: "find (\<lambda>config. type_cfg config = Transcription) (catalog env0) = Some (hd (catalog env0))"
    by (simp add: catalog_def)
  have h3: "\<not> truthy (fst (getModelFromCache env0 (name (hd (catalog env0)))
                        (snd (getModelConfigs env0 s_empty))))"
    by (simp add: s_empty_def example_defs config_defs cache_defs)
  have h4: "files (snd (getModelConfigs env0 s_empty)) (localPath (hd (catalog env0))) = None"
    by (simp add: s_empty_def example_defs config_defs cache_defs)
  have h5: "\<forall>n. now env0 n \<le> now env0 (Suc n)"
    by (simp add: env0_def)
  have h6: "catalog_descriptor env0 (hd (catalog env0))"
    by (simp add: catalog_descriptor_def catalog_def)
  have h7: "requiredDiskSpace (hd (catalog env0)) < snd (getDiskSpace env0)"
    by (simp add: catalog_def getDiskSpace_def placeholderDiskSpace_def)
  have u: "url (hd (catalog env0)) =
      ''https://huggingface.co/ggerganov/whisper.cpp/resolve/main/ggml-small.bin''"
    by (simp add: catalog_def)
  have f: "fetched s_empty = []" by (simp add: s_empty_def mk_state_def)
  have k1: "getModelConfigs env0 s_big = (Inr [cfg_big], s_big)"
    by (simp add: getModelConfigs_def s_big_def)
  have k2: "find (\<lambda>config. type_cfg config = Transcription) [cfg_big] = Some cfg_big"
    by (simp add: cfg_big_def)
  have k3: "\<not> truthy (fst (getModelFromCache env0 (name cfg_big) s_big))"
    by (simp add: s_big_def mk_state_def getModelFromCache_def)
  have k4: "files s_big (localPath cfg_big) = None"
    by (simp add: s_big_def mk_state_def)
  have k6: "\<not> checkDiskSpace env0 (requiredDiskSpace cfg_big)"
    by (simp add: cfg_big_def GiB_def checkDiskSpace_def getDiskSpace_def placeholderDiskSpace_def)
  from ensureModelAvailable_space_check [OF h1 h2 h3 h4 h5]
    ensureModelAvailable_space_check [OF k1 k2 k3 k4 h5]
    g h2 h3 h4 h5 h6 h7 k1 k2 k3 k4 k6
  show ?thesis
    by (simp add: u f)
qed

text \<open>
  Counterexample to C6 as stated: a process starts with \<open>whisper-small\<close> in the persisted
  index, last used thirty days before the first reading of the clock, and the clock
  then steps back by a millisecond. The catalog resolves the descriptor, the lookup of
  \<open>ensureModelAvailable\<close> misses on age, the model file is absent and the space
  suffices, yet nothing is fetched: the lookup that \<open>downloadModel\<close> makes before the
  fetch finds the entry recent and returns the cached path.
\<close>

theorem ensureModelAvailable_space_check_counterexample:
  "fst (getModelConfigs env_back s_stale) = Inr (catalog env_back)
   \<and> find (\<lambda>config. type_cfg config = Transcription) (catalog env_back) =
        Some (hd (catalog env_back))
   \<and> fst (getModelFromCache env_back (name (hd (catalog env_back)))
             (snd (getModelConfigs env_back s_stale))) = None
   \<and> files (snd (getModelConfigs env_back s_stale)) (localPath (hd (catalog env_back))) = None
   \<and> requiredDiskSpace (hd (catalog env_back)) \<le> snd (getDiskSpace env_back)
   \<and> checkDiskSpace env_back (requiredDiskSpace (hd (catalog env_back)))
   \<and> now env_back 1 < now env_back 0
   \<and> fetched (snd (ensureModelAvailable env_back Transcription s_stale)) = []
   \<and> map_option localPath (fst (ensureModelAvailable env_back Transcription s_stale)) =
        Some ''/c/w''"
  by (simp add: s_stale_def env_back_def example_defs config_defs cache_defs)

text \<open>
  Claim C7. When the catalog resolves the descriptor, the cache lookup misses, the file
  at \<open>localPath\<close> exists, a checksum is declared and the file's digest differs from it,
  \<open>ensureModelAvailable\<close> returns absent, changes no file (the invalid file is still
  there), fetches nothing, and caches nothing.
\<close>

theorem ensureModelAvailable_checksum_mismatch:
  assumes "getModelConfigs env s = (Inr configs, s1)"
    and "find (\<lambda>config. type_cfg config = modelType) configs = Some cfg"
    and "\<not> truthy (fst (getModelFromCache env (name cfg) s1))"
    and "files s1 (localPath cfg) = Some (File sz d)"
    and "checksum cfg \<noteq> []"
    and "d \<noteq> checksum cfg"
  shows "fst (ensureModelAvailable env modelType s) = None
     \<and> files (snd (ensureModelAvailable env modelType s)) = files s1
     \<and> files (snd (ensureModelAvailable env modelType s)) (localPath cfg) = Some (File sz d)
     \<and> fetched (snd (ensureModelAvailable env modelType s)) = fetched s
     \<and> cacheIndex (snd (ensureModelAvailable env modelType s)) =
          cacheIndex (snd (getModelFromCache env (name cfg) s1))"
proof -
  obtain c s2 where l: "getModelFromCache env (name cfg) s1 = (c, s2)"
    by (cases "getModelFromCache env (name cfg) s1")
  have f2: "files s2 = files s1"
    using getModelFromCache_files [of env "name cfg" s1] by (simp add: l)
  have t2: "fetched s2 = fetched s"
    using getModelFromCache_fetched [of env "name cfg" s1] getModelConfigs_fetched [OF assms(1)]
    by (simp add: l)
  have v: "verifyModelChecksum (localPath cfg) (checksum cfg) s2 = (False, s2)"
    using assms(4,6) by (simp add: verifyModelChecksum_def fs_readFile_def f2)
  have "ensureModelAvailable env modelType s =
      (None, logger Warn ''Model checksum invalid, re-downloading'' s2)"
    using assms(1-5) l v by (simp add: ensureModelAvailable_def fs_access_def f2)
  then show ?thesis
    using assms(4) by (simp add: f2 t2 l)
qed

text \<open>Witness for C7: \<open>s_cfg\<close>, whose model file has the digest \<open>actual\<close>, not \<open>expected\<close>.\<close>

theorem ensureModelAvailable_checksum_mismatch_witness:
  "getModelConfigs env0 s_cfg = (Inr [cfg_sum], s_cfg)
   \<and> find (\<lambda>config. type_cfg config = Summarization) [cfg_sum] = Some cfg_sum
   \<and> \<not> truthy (fst (getModelFromCache env0 (name cfg_sum) s_cfg))
   \<and> files s_cfg (localPath cfg_sum) = Some (File GiB ''actual'')
   \<and> checksum cfg_sum \<noteq> []
   \<and> ''actual'' \<noteq> checksum cfg_sum
   \<and> fst (ensureModelAvailable env0 Summarization s_cfg) = None
   \<and> files (snd (ensureModelAvailable env0 Summarization s_cfg)) = files s_cfg
   \<and> files (snd (ensureModelAvailable env0 Summarization s_cfg)) ''/app/models/m.bin'' =
        Some (File GiB ''actual'')
   \<and> fetched (snd (ensureModelAvailable env0 Summarization s_cfg)) = []"
proof -
  have h1: "getModelConfigs env0 s_cfg = (Inr [cfg_sum], s_cfg)"
    by (simp add: getModelConfigs_def s_cfg_def)
  have h2: "find (\<lambda>config. type_cfg config = Summarization) [cfg_sum] = Some cfg_sum"
    by (simp add: cfg_sum_def)
  have h3: "\<not> truthy (fst (getModelFromCache env0 (name cfg_sum) s_cfg))"
    by (simp add: s_cfg_def cfg_sum_def example_defs cache_defs)
  have h4: "files s_cfg (localPath cfg_sum) = Some (File GiB ''actual'')"
    by (simp add: s_cfg_def cfg_sum_def example_defs)
  have h5: "checksum cfg_sum \<noteq> []" by (simp add: cfg_sum_def)
  have h6: "''actual'' \<noteq> checksum cfg_sum" by (simp add: cfg_sum_def)
  have p: "localPath cfg_sum = ''/app/models/m.bin''" by (simp add: cfg_sum_def)
  have f: "fetched s_cfg = []" by (simp add: s_cfg_def mk_state_def)
  from ensureModelAvailable_checksum_mismatch [OF h1 h2 h3 h4 h5 h6] h1 h2 h3 h4 h5 h6
  show ?thesis
    by (simp add: p f)
qed

text \<open>
  Claim C8. Whenever \<open>downloadModel\<close> returns absent, the index is the one it started
  with or the one its cache lookup left (the lookup can purge or touch an entry, and
  adds none): no name is new in it, and a model that had no entry has none. An attempt
  whose fetch is rejected (network failure or timeout), whose response status is not a
  success, whose body cannot be read or whose target cannot be written does return
  absent; and after a non-success status the files are as they were, so that nothing,
  partial or whole, is at the target path that was not there before.
\<close>

theorem downloadModel_failure_registers_nothing:
  "(fst (downloadModel env cfg s) = None \<longrightarrow>
      (cacheIndex (snd (downloadModel env cfg s)) = cacheIndex s
       \<or> cacheIndex (snd (downloadModel env cfg s)) =
            cacheIndex (snd (getModelFromCache env (name cfg) s)))
      \<and> fst ` set (cacheIndex (snd (downloadModel env cfg s))) \<subseteq> fst ` set (cacheIndex s)
      \<and> (map_of (cacheIndex s) (name cfg) = None \<longrightarrow>
            cacheIndex (snd (downloadModel env cfg s)) = cacheIndex s
            \<and> map_of (cacheIndex (snd (downloadModel env cfg s))) (name cfg) = None))
   \<and> (checkDiskSpace env (requiredDiskSpace cfg)
       \<and> \<not> truthy (fst (getModelFromCache env (name cfg) s))
       \<and> (fetch env (url cfg) = Rejected
           \<or> (\<exists>st b. fetch env (url cfg) = Response False st b)
           \<or> (\<exists>st. fetch env (url cfg) = Response True st None)
           \<or> localPath cfg \<in> unwritable env) \<longrightarrow>
         fst (downloadModel env cfg s) = None
         \<and> fetched (snd (downloadModel env cfg s)) = fetched s @ [url cfg])
   \<and> (checkDiskSpace env (requiredDiskSpace cfg)
       \<and> \<not> truthy (fst (getModelFromCache env (name cfg) s))
       \<and> (\<exists>st b. fetch env (url cfg) = Response False st b) \<longrightarrow>
         files (snd (downloadModel env cfg s)) = files s)"
proof -
  have a: "cacheIndex (snd (downloadModel env cfg s)) = cacheIndex s
       \<or> cacheIndex (snd (downloadModel env cfg s)) =
            cacheIndex (snd (getModelFromCache env (name cfg) s))"
    if "fst (downloadModel env cfg s) = None"
    using that by (rule downloadModel_None_index)
  have b: "fst ` set (cacheIndex (snd (downloadModel env cfg s))) \<subseteq> fst ` set (cacheIndex s)"
    if "fst (downloadModel env cfg s) = None"
    using a [OF that] getModelFromCache_keys [of env "name cfg" s] by (elim disjE) simp_all
  have c: "cacheIndex (snd (downloadModel env cfg s)) = cacheIndex s
            \<and> map_of (cacheIndex (snd (downloadModel env cfg s))) (name cfg) = None"
    if "fst (downloadModel env cfg s) = None" and m: "map_of (cacheIndex s) (name cfg) = None"
    using a [OF that(1)] m by (auto simp: getModelFromCache_indexes)
  have d: "fst (downloadModel env cfg s) = None
         \<and> fetched (snd (downloadModel env cfg s)) = fetched s @ [url cfg]"
    if "checkDiskSpace env (requiredDiskSpace cfg)"
      and "\<not> truthy (fst (getModelFromCache env (name cfg) s))"
      and "fetch env (url cfg) = Rejected
           \<or> (\<exists>st b. fetch env (url cfg) = Response False st b)
           \<or> (\<exists>st. fetch env (url cfg) = Response True st None)
           \<or> localPath cfg \<in> unwritable env"
    using downloadModel_attempt_fails [OF that] downloadModel_fetches [OF that(1,2)] by simp
  have e: "files (snd (downloadModel env cfg s)) = files s"
    if "checkDiskSpace env (requiredDiskSpace cfg)"
      and "\<not> truthy (fst (getModelFromCache env (name cfg) s))"
      and "\<exists>st b. fetch env (url cfg) = Response False st b"
    using downloadModel_attempt_fails [OF that(1,2)] that(3) by blast
  from a b c d e show ?thesis by blast
qed

text \<open>
  Witness for C8: a 404 answer, a rejected fetch and a target that cannot be written,
  each on an empty cache.
\<close>

theorem downloadModel_failure_registers_nothing_witness:
  "checkDiskSpace env_404 (requiredDiskSpace cfg_sum)
   \<and> \<not> truthy (fst (getModelFromCache env_404 (name cfg_sum) s_empty))
   \<and> fetch env_404 (url cfg_sum) = Response False ''Not Found'' None
   \<and> map_of (cacheIndex s_empty) (name cfg_sum) = None
   \<and> fst (downloadModel env_404 cfg_sum s_empty) = None
   \<and> fetched (snd (downloadModel env_404 cfg_sum s_empty)) = [''https://example.org/m.bin'']
   \<and> files (snd (downloadModel env_404 cfg_sum s_empty)) = files s_empty
   \<and> files (snd (downloadModel env_404 cfg_sum s_empty)) (localPath cfg_sum) = None
   \<and> cacheIndex (snd (downloadModel env_404 cfg_sum s_empty)) = []
   \<and> fetch env0 (url cfg_sum) = Rejected
   \<and> fst (downloadModel env0 cfg_sum s_empty) = None
   \<and> cacheIndex (snd (downloadModel env0 cfg_sum s_empty)) = []
   \<and> fetch env_readonly (url cfg_sum) = Response True ''OK'' (Some (GiB, ''dm''))
   \<and> localPath cfg_sum \<in> unwritable env_readonly
   \<and> fst (downloadModel env_readonly cfg_sum s_empty) = None
   \<and> cacheIndex (snd (downloadModel env_readonly cfg_sum s_empty)) = []"
proof -
  have h1: "checkDiskSpace env_404 (requiredDiskSpace cfg_sum)"
    "checkDiskSpace env0 (requiredDiskSpace cfg_sum)"
    "checkDiskSpace env_readonly (requiredDiskSpace cfg_sum)"
    by (simp_all add: env_404_def env_readonly_def cfg_sum_def example_defs config_defs)
  have h2: "\<not> truthy (fst (getModelFromCache env_404 (name cfg_sum) s_empty))"
    "\<not> truthy (fst (getModelFromCache env0 (name cfg_sum) s_empty))"
    "\<not> truthy (fst (getModelFromCache env_readonly (name cfg_sum) s_empty))"
    by (simp_all add: s_empty_def mk_state_def getModelFromCache_def)
  have h3: "fetch env_404 (url cfg_sum) = Response False ''Not Found'' None"
    "fetch env0 (url cfg_sum) = Rejected"
    "fetch env_readonly (url cfg_sum) = Response True ''OK'' (Some (GiB, ''dm''))"
    by (simp_all add: env_404_def env_readonly_def env0_def)
  have h4: "localPath cfg_sum \<in> unwritable env_readonly"
    by (simp add: env_readonly_def env0_def cfg_sum_def)
  have m: "map_of (cacheIndex s_empty) (name cfg_sum) = None" "cacheIndex s_empty = []"
    "fetched s_empty = []" "files s_empty (localPath cfg_sum) = None"
    by (simp_all add: s_empty_def mk_state_def)
  have u: "url cfg_sum = ''https://example.org/m.bin''" by (simp add: cfg_sum_def)
  from downloadModel_failure_registers_nothing [of env_404 cfg_sum s_empty]
    downloadModel_failure_registers_nothing [of env0 cfg_sum s_empty]
    downloadModel_failure_registers_nothing [of env_readonly cfg_sum s_empty]
    h1 h2 h3 h4 m
  show ?thesis
    by (simp add: u)
qed

end
